theory Spec2Isabelle
  imports Main
begin

section \<open>The rule emitter of \<^verbatim>\<open>cursor_rules_setup.py\<close>\<close>

text \<open>
  The script is a sequence of module-level statements: it binds \<^verbatim>\<open>rules_dir\<close>,
  calls \<^verbatim>\<open>os.makedirs(rules_dir, exist_ok=True)\<close>, binds the dictionary
  \<^verbatim>\<open>rules\<close>, writes one file per dictionary entry and prints a confirmation.
  The model threads a process state (file system, the operating-system calls requested
  so far, standard output) through these statements; a raised exception is the second
  component of the result and stops everything after it.

  Python strings are modelled as \<^typ>\<open>string\<close>. Every string of the table is ASCII,
  so code points and bytes coincide; the one non-ASCII character of the script, the
  check mark of the confirmation, is written as its three UTF-8 bytes. Files are opened
  in text mode, which on POSIX writes \<^verbatim>\<open>\n\<close> as the single byte 10; that is the
  platform modelled here. Writes reach the file when they are made (the buffer of the
  file object is not modelled), and printing to standard output does not fail.
\<close>

subsection \<open>Strings and paths\<close>

text \<open>\<^verbatim>\<open>sep.join(xs)\<close> of Python's \<^verbatim>\<open>str\<close>.\<close>

fun str_join :: "string \<Rightarrow> string list \<Rightarrow> string" where
  "str_join s [] = []"
| "str_join s [x] = x"
| "str_join s (x # y # ys) = x @ s @ str_join s (y # ys)"

definition startswith_sep :: "string \<Rightarrow> bool" where
  "startswith_sep b = (case b of [] \<Rightarrow> False | c # _ \<Rightarrow> c = CHR ''/'')"

definition endswith_sep :: "string \<Rightarrow> bool" where
  "endswith_sep a = (case rev a of [] \<Rightarrow> False | c # _ \<Rightarrow> c = CHR ''/'')"

text \<open>
  \<^verbatim>\<open>os.path.join(a, b)\<close> of \<^verbatim>\<open>posixpath\<close>, for two arguments: an absolute
  \<^verbatim>\<open>b\<close> replaces \<^verbatim>\<open>a\<close>; an empty \<^verbatim>\<open>a\<close> or one that ends with the separator is
  extended directly; otherwise a separator is inserted.
\<close>

definition os_path_join :: "string \<Rightarrow> string \<Rightarrow> string" where
  "os_path_join a b =
     (if startswith_sep b then b
      else if a = [] \<or> endswith_sep a then a @ b
      else a @ ''/'' @ b)"

text \<open>
  The directory that holds a path: the text before its last separator. The empty
  string stands for the directory the path starts from (the working directory, or the
  root for \<^verbatim>\<open>/x\<close>), which always exists.
\<close>

definition parent :: "string \<Rightarrow> string" where
  "parent p = rev (drop 1 (dropWhile (\<lambda>c. c \<noteq> CHR ''/'') (rev p)))"

text \<open>
  The proper ancestors of a path, outermost first: its prefixes that end before a
  separator (\<^verbatim>\<open>.cursor\<close> for \<^verbatim>\<open>.cursor/rules\<close>). The accumulator is the part of the
  path read so far.
\<close>

fun dir_prefixes :: "string \<Rightarrow> string \<Rightarrow> string list" where
  "dir_prefixes acc [] = []"
| "dir_prefixes acc (c # cs) =
     (if c = CHR ''/'' \<and> acc \<noteq> [] \<and> \<not> endswith_sep acc then [acc] else [])
     @ dir_prefixes (acc @ [c]) cs"

definition ancestors :: "string \<Rightarrow> string list" where
  "ancestors p = dir_prefixes [] p"

subsection \<open>The file system and the exceptions of the operating-system calls\<close>

text \<open>
  The file system is what the script can observe and change: which paths are
  directories, which are regular files and with what content, at which paths the
  process is refused creation or writing (permissions, read-only mounts), and how many
  bytes the device has left. Paths are compared as strings: the model does not resolve
  \<^verbatim>\<open>.\<close>, \<^verbatim>\<open>..\<close>, doubled separators or links, and is exact for paths in normal
  form, such as those the script builds.
\<close>

record fs =
  dirs :: "string set"
  files :: "string \<rightharpoonup> string"
  denied :: "string set"
  free :: nat

text \<open>
  The exceptions the script can raise. The subclasses of \<^verbatim>\<open>OSError\<close> raised by
  \<^verbatim>\<open>os.mkdir\<close> and \<^verbatim>\<open>open\<close> carry the path in their \<^verbatim>\<open>filename\<close> attribute;
  the \<^verbatim>\<open>OSError\<close> of a write that finds the device full (\<^verbatim>\<open>ENOSPC\<close>) carries none;
  \<^verbatim>\<open>KeyError\<close> carries the missing dictionary key.
\<close>

datatype exn =
    FileExistsError string
  | FileNotFoundError string
  | NotADirectoryError string
  | IsADirectoryError string
  | PermissionError string
  | NoSpaceError
  | KeyError string

fun exn_filename :: "exn \<Rightarrow> string option" where
  "exn_filename (FileExistsError p) = Some p"
| "exn_filename (FileNotFoundError p) = Some p"
| "exn_filename (NotADirectoryError p) = Some p"
| "exn_filename (IsADirectoryError p) = Some p"
| "exn_filename (PermissionError p) = Some p"
| "exn_filename NoSpaceError = None"
| "exn_filename (KeyError k) = None"

definition is_dir :: "fs \<Rightarrow> string \<Rightarrow> bool" where
  "is_dir s p = (p = [] \<or> p \<in> dirs s)"

definition is_file :: "fs \<Rightarrow> string \<Rightarrow> bool" where
  "is_file s p = (files s p \<noteq> None)"

type_synonym fsop = "fs \<Rightarrow> fs \<times> exn option"

text \<open>
  An operating-system call returns the file system it leaves behind and the exception
  it raised, if any.

  \<^verbatim>\<open>os.mkdir(p)\<close>: creates one directory inside an existing one.
\<close>

definition os_mkdir :: "string \<Rightarrow> fsop" where
  "os_mkdir p s =
     (if p = [] then (s, Some (FileNotFoundError p))
      else if p \<in> dirs s \<or> is_file s p then (s, Some (FileExistsError p))
      else if is_file s (parent p) then (s, Some (NotADirectoryError p))
      else if \<not> is_dir s (parent p) then (s, Some (FileNotFoundError p))
      else if p \<in> denied s then (s, Some (PermissionError p))
      else (s\<lparr>dirs := insert p (dirs s)\<rparr>, None))"

text \<open>
  \<^verbatim>\<open>os.makedirs(name, exist_ok=True)\<close>: every ancestor that is not yet a directory
  is created, outermost first, then the leaf; an error of the leaf's \<^verbatim>\<open>mkdir\<close> is
  suppressed exactly when the leaf is a directory already. Ancestors created before a
  failure stay.
\<close>

fun mk_parents :: "string list \<Rightarrow> fsop" where
  "mk_parents [] s = (s, None)"
| "mk_parents (p # ps) s =
     (if p \<in> dirs s then mk_parents ps s
      else case os_mkdir p s of
             (s', Some e) \<Rightarrow> (s', Some e)
           | (s', None) \<Rightarrow> mk_parents ps s')"

definition os_makedirs :: "string \<Rightarrow> fsop" where
  "os_makedirs name s =
     (case mk_parents (ancestors name) s of
        (s1, Some e) \<Rightarrow> (s1, Some e)
      | (s1, None) \<Rightarrow>
          (case os_mkdir name s1 of
             (s2, None) \<Rightarrow> (s2, None)
           | (s2, Some e) \<Rightarrow> if name \<in> dirs s2 then (s2, None) else (s2, Some e)))"

text \<open>
  \<^verbatim>\<open>open(p, "w")\<close>: creates the file or truncates it to length zero; the bytes of
  the old content return to the device.
\<close>

definition old_size :: "fs \<Rightarrow> string \<Rightarrow> nat" where
  "old_size s p = (case files s p of None \<Rightarrow> 0 | Some old \<Rightarrow> length old)"

definition open_w :: "string \<Rightarrow> fsop" where
  "open_w p s =
     (if p = [] then (s, Some (FileNotFoundError p))
      else if p \<in> dirs s \<or> endswith_sep p then (s, Some (IsADirectoryError p))
      else if is_file s (parent p) then (s, Some (NotADirectoryError p))
      else if \<not> is_dir s (parent p) then (s, Some (FileNotFoundError p))
      else if p \<in> denied s then (s, Some (PermissionError p))
      else (s\<lparr>files := (files s)(p \<mapsto> []), free := free s + old_size s p\<rparr>, None))"

text \<open>
  \<^verbatim>\<open>f.write(data)\<close> on the file opened at \<^verbatim>\<open>p\<close>: the data is appended, unless the
  device has fewer bytes left than the data needs.
\<close>

definition append_data :: "string \<Rightarrow> string \<Rightarrow> fs \<Rightarrow> fs" where
  "append_data p data s =
     s\<lparr>files := (files s)(p \<mapsto> (case files s p of None \<Rightarrow> [] | Some old \<Rightarrow> old) @ data),
       free := free s - length data\<rparr>"

definition file_write :: "string \<Rightarrow> string \<Rightarrow> fsop" where
  "file_write p data s =
     (if free s < length data then (s, Some NoSpaceError)
      else (append_data p data s, None))"

subsection \<open>The process state and sequencing\<close>

text \<open>
  The process state: the file system, the operating-system calls the script has
  requested so far (oldest first) and the lines it has printed.
\<close>

datatype call = Makedirs string | Open string | Write string string

record proc =
  fsys :: fs
  calls :: "call list"
  stdout :: "string list"

type_synonym stmt = "proc \<Rightarrow> proc \<times> exn option"

text \<open>A call is logged when it is requested, whether or not it succeeds.\<close>

definition sys :: "call \<Rightarrow> fsop \<Rightarrow> stmt" where
  "sys c f w = (case f (fsys w) of (s, x) \<Rightarrow> (w\<lparr>fsys := s, calls := calls w @ [c]\<rparr>, x))"

definition raise :: "exn \<Rightarrow> stmt" where
  "raise e w = (w, Some e)"

definition pass :: stmt where
  "pass w = (w, None)"

text \<open>Statement sequencing: the second statement runs only if the first raised nothing.\<close>

definition and_then :: "stmt \<Rightarrow> stmt \<Rightarrow> stmt" where
  "and_then a b w = (case a w of (w1, None) \<Rightarrow> b w1 | (w1, Some e) \<Rightarrow> (w1, Some e))"

definition print :: "string \<Rightarrow> stmt" where
  "print line w = (w\<lparr>stdout := stdout w @ [line]\<rparr>, None)"

text \<open>
  The exit status of the interpreter: 0 when the module body ran to its end, 1 when an
  exception reached the top level.
\<close>

definition exit_status :: "exn option \<Rightarrow> nat" where
  "exit_status x = (case x of None \<Rightarrow> 0 | Some e \<Rightarrow> 1)"

subsection \<open>The script\<close>

text \<open>
  A rule is a dictionary with the keys \<^verbatim>\<open>rule_type\<close>, \<^verbatim>\<open>file_patterns\<close>,
  \<^verbatim>\<open>description\<close> and \<^verbatim>\<open>content\<close>, each of which may be absent; the values
  have the types of the literal (strings, and a list of strings for the patterns).
\<close>

record rule =
  rule_type :: "string option"
  file_patterns :: "string list option"
  description :: "string option"
  content :: "string option"

text \<open>
  The body of the \<^verbatim>\<open>for\<close> loop. The file is opened before the first f-string is
  evaluated, so a missing \<^verbatim>\<open>rule_type\<close> raises \<^verbatim>\<open>KeyError\<close> after the file was
  truncated. Formatting a string value into an f-string leaves it unchanged.
  \<^verbatim>\<open>f_write filepath\<close> is \<^verbatim>\<open>f.write\<close> for the file object opened at
  \<^verbatim>\<open>filepath\<close>.
\<close>

definition f_write :: "string \<Rightarrow> string \<Rightarrow> stmt" where
  "f_write filepath data = sys (Write filepath data) (file_write filepath data)"

definition write_rule :: "string \<Rightarrow> string \<Rightarrow> rule \<Rightarrow> stmt" where
  "write_rule rules_dir filename rule =
     (let filepath = os_path_join rules_dir filename
      in and_then (sys (Open filepath) (open_w filepath))
        (and_then (case rule_type rule of
                     None \<Rightarrow> raise (KeyError ''rule_type'')
                   | Some rt \<Rightarrow> f_write filepath (''Rule Type: '' @ rt @ ''\<newline>\<newline>''))
        (and_then (case file_patterns rule of
                     None \<Rightarrow> pass
                   | Some ps \<Rightarrow>
                       f_write filepath
                         (''File Pattern Matches: '' @ str_join '', '' ps @ ''\<newline>\<newline>''))
        (and_then (case description rule of
                     None \<Rightarrow> pass
                   | Some d \<Rightarrow> f_write filepath (''Description: '' @ d @ ''\<newline>\<newline>''))
                  (case content rule of
                     None \<Rightarrow> raise (KeyError ''content'')
                   | Some c \<Rightarrow> f_write filepath c)))))"

text \<open>\<^verbatim>\<open>for filename, rule in rules.items()\<close>, in insertion order.\<close>

fun emit_loop :: "string \<Rightarrow> (string \<times> rule) list \<Rightarrow> stmt" where
  "emit_loop rules_dir [] = pass"
| "emit_loop rules_dir ((filename, rule) # rest) =
     and_then (write_rule rules_dir filename rule) (emit_loop rules_dir rest)"

definition success_message :: "string \<Rightarrow> string" where
  "success_message rules_dir =
     [CHR 0xE2, CHR 0x9C, CHR 0x85] @ '' Successfully created rule files in '' @ rules_dir"

text \<open>
  The module body, with its two module-level bindings \<^verbatim>\<open>rules\<close> and
  \<^verbatim>\<open>rules_dir\<close> as parameters.
\<close>

definition run_script :: "(string \<times> rule) list \<Rightarrow> string \<Rightarrow> stmt" where
  "run_script table rules_dir =
     and_then (sys (Makedirs rules_dir) (os_makedirs rules_dir))
    (and_then (emit_loop rules_dir table)
              (print (success_message rules_dir)))"

definition rules_dir :: string where
  "rules_dir = ''.cursor/rules''"

definition content_always :: string where
  "content_always =
     ''# Always Rules\<newline>'' @
     ''\<newline>'' @
     ''These rules apply to every task, no exceptions.\<newline>'' @
     ''\<newline>'' @
     ''## Stay Focused on the Task\<newline>'' @
     ''- Work **only** on the specific task at hand; do not go out of scope.\<newline>'' @
     ''\<newline>'' @
     ''## Preserve Established Patterns\<newline>'' @
     ''- Do not modify workflows, structures, or conventions unless absolutely necessary.\<newline>'' @
     ''\<newline>'' @
     ''## Avoid Duplication\<newline>'' @
     ''- Before writing new code, check for existing functions that accomplish the same goal.\<newline>'' @
     ''- Identify and clean up redundant or duplicate code.\<newline>'' @
     ''\<newline>'' @
     ''## Enforce Code Cleanliness\<newline>'' @
     ''- Refactor bloated files and avoid functions longer than **300 lines**.\<newline>'' @
     ''- Ensure modularity for maintainability.\<newline>'' @
     ''\<newline>'' @
     ''## Commit & Document Work Often\<newline>'' @
     ''- Make **incremental commits** with clear, structured commit messages.\<newline>'' @
     ''- Keep local files organized to track project progress.\<newline>'' @
     ''\<newline>'' @
     ''## Keep Solutions Simple\<newline>'' @
     ''- Avoid over-engineering; prioritize clarity and efficiency.\<newline>''"

definition content_testing :: string where
  "content_testing =
     ''# Testing Rules\<newline>'' @
     ''\<newline>'' @
     ''These rules ensure every task is validated with proper testing.\<newline>'' @
     ''\<newline>'' @
     ''## Plan Testing Before Development\<newline>'' @
     ''- Define **unit tests** and **end-to-end tests** before coding.\<newline>'' @
     ''- Identify edge cases, failure scenarios, and performance limits.\<newline>'' @
     ''\<newline>'' @
     ''## Execute Tests to Prove Work is Complete\<newline>'' @
     ''- Run all relevant tests before submitting a task.\<newline>'' @
     ''- Ensure no regressions or breakages.\<newline>'' @
     ''\<newline>'' @
     ''## Unit Testing Best Practices\<newline>'' @
     ''- Cover core logic and edge cases.\<newline>'' @
     ''- Use the right frameworks:\<newline>'' @
     ''  - **Flask/Python:** `pytest`\<newline>'' @
     ''  - **LWC:** Jest\<newline>'' @
     ''  - **React Native:** React Testing Library + Jest\<newline>'' @
     ''\<newline>'' @
     ''## End-to-End Testing Guidelines\<newline>'' @
     ''- Test complete workflows for real-world validation.\<newline>'' @
     ''- Automate tests using **Selenium, Cypress, or Playwright**.\<newline>'' @
     ''\<newline>'' @
     ''## Maintain Test Quality\<newline>'' @
     ''- Prioritize meaningful test cases over sheer quantity.\<newline>'' @
     ''- Add new test cases for any discovered bugs.\<newline>''"

definition content_git_rules :: string where
  "content_git_rules =
     ''# Git & Repository Management Rules\<newline>'' @
     ''\<newline>'' @
     ''## Every Project Must Have a GitHub Repository\<newline>'' @
     ''- If no repository exists, create a **new public GitHub repo**.\<newline>'' @
     ''- Store repository details in a **standardized location** for reference.\<newline>'' @
     ''\<newline>'' @
     ''## Commit Often with Detailed Notes\<newline>'' @
     ''- Use structured commit messages:\<newline>'' @
     ''  - **Feature Addition:** `feat: Added [feature]`\<newline>'' @
     ''  - **Bug Fix:** `fix: Resolved [issue]`\<newline>'' @
     ''  - **Refactor:** `refactor: Improved [module]`\<newline>'' @
     ''\<newline>'' @
     ''## Automate Repository Setup\<newline>'' @
     ''- Initialize Git (`git init`) if needed.\<newline>'' @
     ''- Add a **`.gitignore`** file.\<newline>'' @
     ''- Push an initial commit with a **`README.md`**.\<newline>'' @
     ''\<newline>'' @
     ''## Branching Best Practices\<newline>'' @
     ''- Use **feature branches** for new work.\<newline>'' @
     ''- Merge via **pull requests** (PRs), not direct commits.\<newline>''"

definition content_build_planning :: string where
  "content_build_planning =
     ''# Build Planning Rules\<newline>'' @
     ''\<newline>'' @
     ''These rules ensure agents create structured project plans.\<newline>'' @
     ''\<newline>'' @
     ''## Map Out a Build Plan\<newline>'' @
     ''- Before coding, generate a **clear build plan** outlining:\<newline>'' @
     ''  - Features to be developed.\<newline>'' @
     ''  - Dependencies and integrations.\<newline>'' @
     ''  - Expected output.\<newline>'' @
     ''\<newline>'' @
     ''## Store and Catalog Plans\<newline>'' @
     ''- Plans should be **saved locally** and easily accessible by agents.\<newline>'' @
     ''- Completed plans should be cataloged for reference.\<newline>'' @
     ''\<newline>'' @
     ''## Break Plans Into Daily Goals\<newline>'' @
     ''- Tasks should be **divided into actionable goals**.\<newline>'' @
     ''- Reference previous work to ensure continuity.\<newline>''"

definition content_context_passing :: string where
  "content_context_passing =
     ''# Context Passing Rules\<newline>'' @
     ''\<newline>'' @
     ''Ensures smooth transitions between agents due to tool limitations.\<newline>'' @
     ''\<newline>'' @
     ''## Efficiently Pass Context\<newline>'' @
     ''- After **25 tool calls**, wrap up and generate a **handoff prompt**.\<newline>'' @
     ''- Store key progress details in an **accessible location**.\<newline>'' @
     ''\<newline>'' @
     ''## Automate Context Retention\<newline>'' @
     ''- Use an **indexing system** to allow agents to search previous work.\<newline>'' @
     ''- Prioritize **important decisions** in context notes.\<newline>'' @
     ''\<newline>'' @
     ''## Standardize Handoff Prompts\<newline>'' @
     ''- Clearly state what has been completed and **next steps** for the next agent.\<newline>'' @
     ''- Include **relevant files, APIs, or database updates**.\<newline>''"

definition content_manual :: string where
  "content_manual =
     ''# Manual Rules\<newline>'' @
     ''\<newline>'' @
     ''These rules apply when manually activated.\<newline>'' @
     ''\<newline>'' @
     ''## Refactoring & Optimization\<newline>'' @
     ''- Break down large functions into **smaller, reusable modules**.\<newline>'' @
     ''- Apply **performance improvements** only when requested.\<newline>'' @
     ''\<newline>'' @
     ''## Deep Code Review & Debugging\<newline>'' @
     ''- Conduct **in-depth reviews** beyond automated linting.\<newline>'' @
     ''- Debug tricky issues with **additional logging and tracing**.\<newline>'' @
     ''\<newline>'' @
     ''## Custom Implementations\<newline>'' @
     ''- Write specialized solutions only **when standard approaches won't work**.\<newline>''"

definition content_agent_requested :: string where
  "content_agent_requested =
     ''# Agent Requested Rules\<newline>'' @
     ''\<newline>'' @
     ''These rules apply only when explicitly requested.\<newline>'' @
     ''\<newline>'' @
     ''## Suggest Alternative Approaches\<newline>'' @
     ''- Provide multiple ways to solve a problem, with trade-offs.\<newline>'' @
     ''\<newline>'' @
     ''## Optimize for Learning\<newline>'' @
     ''- Explain technical decisions in **clear, concise terms**.\<newline>'' @
     ''\<newline>'' @
     ''## Review & Improve Existing Code\<newline>'' @
     ''- Identify areas for **refactoring** or **improvement** without assuming changes are needed.\<newline>'' @
     ''\<newline>'' @
     ''## Provide a First Draft Before Finalizing\<newline>'' @
     ''- For complex work, generate a **draft version** before completing the full implementation.\<newline>''"

definition rules :: "(string \<times> rule) list" where
  "rules =
    [(''always.mdc'',
      \<lparr>rule_type = Some ''Always'',
       file_patterns = None,
       description = None,
       content = Some content_always\<rparr>),
     (''testing.mdc'',
      \<lparr>rule_type = Some ''Always'',
       file_patterns = Some [''*_test.py'', ''tests/**'', ''*.spec.tsx''],
       description = None,
       content = Some content_testing\<rparr>),
     (''git-rules.mdc'',
      \<lparr>rule_type = Some ''Auto Attached'',
       file_patterns = Some [''*.sh'', ''*.gitignore'', ''.cursor/config.json''],
       description = None,
       content = Some content_git_rules\<rparr>),
     (''build-planning.mdc'',
      \<lparr>rule_type = Some ''Auto Attached'',
       file_patterns = Some [''docs/*.md'', ''plans/*.json''],
       description = None,
       content = Some content_build_planning\<rparr>),
     (''context-passing.mdc'',
      \<lparr>rule_type = Some ''Auto Attached'',
       file_patterns = Some [''*.md'', ''context/*.json''],
       description = None,
       content = Some content_context_passing\<rparr>),
     (''manual.mdc'',
      \<lparr>rule_type = Some ''Manual'',
       file_patterns = None,
       description = None,
       content = Some content_manual\<rparr>),
     (''agent-requested.mdc'',
      \<lparr>rule_type = Some ''Agent Requested'',
       file_patterns = None,
       description = Some ''Use when a task requires alternative approaches, deep optimizations, or refactoring guidance.'',
       content = Some content_agent_requested\<rparr>)]"

text \<open>
  The program. A process receives its arguments and its environment; the script imports
  only \<^verbatim>\<open>os\<close> and reads neither \<^verbatim>\<open>sys.argv\<close> nor \<^verbatim>\<open>os.environ\<close>.
\<close>

definition cursor_rules_setup :: "string list \<Rightarrow> (string \<rightharpoonup> string) \<Rightarrow> stmt" where
  "cursor_rules_setup argv environ = run_script rules rules_dir"


subsection \<open>The layout the specification gives\<close>

text \<open>
  Following the specification's words: a line \<^verbatim>\<open>Rule Type: <rule_type>\<close> followed by
  a blank line; if the patterns are present, a line
  \<^verbatim>\<open>File Pattern Matches: <comma-and-space-joined patterns>\<close> followed by a blank
  line; if the description is present, a line \<^verbatim>\<open>Description: <description>\<close>
  followed by a blank line; then the content, verbatim.
\<close>

definition text_line :: "string \<Rightarrow> string" where
  "text_line s = s @ [CHR 0x0A]"

definition blank_line :: string where
  "blank_line = [CHR 0x0A]"

definition spec_layout :: "string \<Rightarrow> string list option \<Rightarrow> string option \<Rightarrow> string \<Rightarrow> string" where
  "spec_layout rt patterns descr body =
     text_line (''Rule Type: '' @ rt) @ blank_line
     @ (case patterns of
          None \<Rightarrow> []
        | Some ps \<Rightarrow> text_line (''File Pattern Matches: '' @ str_join '', '' ps) @ blank_line)
     @ (case descr of
          None \<Rightarrow> []
        | Some d \<Rightarrow> text_line (''Description: '' @ d) @ blank_line)
     @ body"

text \<open>The rendering of a record that has the two mandatory fields.\<close>

definition rendering :: "rule \<Rightarrow> string option" where
  "rendering r =
     (case rule_type r of
        None \<Rightarrow> None
      | Some rt \<Rightarrow>
          (case content r of
             None \<Rightarrow> None
           | Some c \<Rightarrow> Some (spec_layout rt (file_patterns r) (description r) c)))"

subsection \<open>Notions used to state the properties\<close>

text \<open>The paths the loop opens for a table, in order.\<close>

definition filepaths :: "string \<Rightarrow> (string \<times> rule) list \<Rightarrow> string list" where
  "filepaths d table = map (\<lambda>kr. os_path_join d (fst kr)) table"

text \<open>The paths of the \<^verbatim>\<open>open\<close> calls in a log, in order.\<close>

fun opened :: "call list \<Rightarrow> string list" where
  "opened [] = []"
| "opened (Open p # cs) = p # opened cs"
| "opened (Makedirs p # cs) = opened cs"
| "opened (Write p data # cs) = opened cs"

text \<open>A file name in the strict sense: not empty and without a path separator.\<close>

definition is_filename :: "string \<Rightarrow> bool" where
  "is_filename k = (k \<noteq> [] \<and> CHR ''/'' \<notin> set k)"

text \<open>The last component of a path, as \<^verbatim>\<open>os.path.basename\<close> gives it.\<close>

definition basename :: "string \<Rightarrow> string" where
  "basename p = rev (takeWhile (\<lambda>c. c \<noteq> CHR ''/'') (rev p))"

text \<open>
  A path names an entry of a directory; the directory may be written with a trailing
  separator.
\<close>

definition inside_dir :: "string \<Rightarrow> string \<Rightarrow> bool" where
  "inside_dir d p = (parent p = d \<or> parent p @ ''/'' = d)"

text \<open>A directory exists in a file system: it and all its ancestors are directories.\<close>

definition dir_exists :: "fs \<Rightarrow> string \<Rightarrow> bool" where
  "dir_exists s d = (d \<in> dirs s \<and> set (ancestors d) \<subseteq> dirs s)"

text \<open>A text that ends with a newline character.\<close>

definition ends_with_newline :: "string \<Rightarrow> bool" where
  "ends_with_newline s = (case rev s of [] \<Rightarrow> False | c # _ \<Rightarrow> c = CHR 0x0A)"

text \<open>The bytes a table needs on the device.\<close>

definition rendered_size :: "(string \<times> rule) list \<Rightarrow> nat" where
  "rendered_size table =
     sum_list (map (\<lambda>kr. case rendering (snd kr) of None \<Rightarrow> 0 | Some l \<Rightarrow> length l) table)"

text \<open>A statement leaves an observation of the process state as it was.\<close>

definition keeps :: "(proc \<Rightarrow> 'a) \<Rightarrow> stmt \<Rightarrow> bool" where
  "keeps f a = (\<forall>w. f (fst (a w)) = f w)"

text \<open>A statement only adds to the log of calls.\<close>

definition logs :: "stmt \<Rightarrow> bool" where
  "logs a = (\<forall>w. \<exists>ext. calls (fst (a w)) = calls w @ ext)"

text \<open>Opening a path for writing would succeed in a file system.\<close>

definition can_open :: "fs \<Rightarrow> string \<Rightarrow> bool" where
  "can_open s p = (snd (open_w p s) = None)"

subsection \<open>Concrete inputs\<close>

text \<open>A process that starts with no directory and no file, and room for 100000 bytes.\<close>

definition fresh_fs :: fs where
  "fresh_fs = \<lparr>dirs = {}, files = Map.empty, denied = {}, free = 100000\<rparr>"

definition fresh :: proc where
  "fresh = \<lparr>fsys = fresh_fs, calls = [], stdout = []\<rparr>"

text \<open>The two example records of the specification.\<close>

definition example_record :: rule where
  "example_record =
     \<lparr>rule_type = Some ''Always'', file_patterns = None, description = None,
      content = Some ''hello\<newline>''\<rparr>"

definition example_record_patterns :: rule where
  "example_record_patterns =
     \<lparr>rule_type = Some ''Always'', file_patterns = Some [''*.py'', ''tests/**''],
      description = None, content = Some ''hello\<newline>''\<rparr>"

text \<open>A process that may not create the directory \<^verbatim>\<open>.cursor\<close>.\<close>

definition locked :: proc where
  "locked = fresh\<lparr>fsys := fresh_fs\<lparr>denied := {''.cursor''}\<rparr>\<rparr>"

text \<open>A process whose device has room for ten more bytes.\<close>

definition cramped :: proc where
  "cramped = fresh\<lparr>fsys := fresh_fs\<lparr>free := 10\<rparr>\<rparr>"


text \<open>A process that may not write the second of three files.\<close>

definition three_records :: "(string \<times> rule) list" where
  "three_records =
     [(''a.mdc'', example_record), (''b.mdc'', example_record), (''c.mdc'', example_record)]"

definition second_denied :: proc where
  "second_denied = fresh\<lparr>fsys := fresh_fs\<lparr>denied := {''targetDir/b.mdc''}\<rparr>\<rparr>"


section \<open>Auxiliary facts\<close>

subsection \<open>Sequencing\<close>

text \<open>
  How the outcome of a sequence of statements is made up of the outcomes of its parts.
\<close>

lemma sys_eq:
  "sys c f w = (w\<lparr>fsys := fst (f (fsys w)), calls := calls w @ [c]\<rparr>, snd (f (fsys w)))"
  by (simp add: sys_def split_beta)

lemma snd_and_then:
  "snd (and_then a b w) = None \<longleftrightarrow> snd (a w) = None \<and> snd (b (fst (a w))) = None"
  by (auto simp: and_then_def split: prod.splits option.splits)

lemma fst_and_then: "snd (a w) = None \<Longrightarrow> fst (and_then a b w) = fst (b (fst (a w)))"
  by (auto simp: and_then_def split: prod.splits option.splits)

lemma and_then_fail: "snd (a w) \<noteq> None \<Longrightarrow> and_then a b w = a w"
  by (auto simp: and_then_def split: prod.splits option.splits)

lemma and_then_Some:
  "and_then a b w = (w', Some e) \<longleftrightarrow>
     a w = (w', Some e) \<or> (\<exists>w1. a w = (w1, None) \<and> b w1 = (w', Some e))"
  by (auto simp: and_then_def split: prod.splits option.splits)

lemma and_then_exnE:
  assumes "snd (and_then a b w) = Some e"
  obtains "snd (a w) = Some e" | w1 where "snd (b w1) = Some e"
  using assms by (auto simp: and_then_def split: prod.splits option.splits)

subsection \<open>Observations a statement leaves alone\<close>

lemma keepsD: "keeps f a \<Longrightarrow> f (fst (a w)) = f w"
  by (simp add: keeps_def)

lemma keeps_and_then: "keeps f a \<Longrightarrow> keeps f b \<Longrightarrow> keeps f (and_then a b)"
  by (auto simp: keeps_def and_then_def split: prod.splits option.splits)
     (metis fst_conv)+

lemma keeps_after: "keeps f b \<Longrightarrow> f (fst (and_then a b w)) = f (fst (a w))"
  by (auto simp: and_then_def keeps_def split: prod.splits option.splits)

lemma keeps_raise: "keeps f (raise e)"
  by (simp add: keeps_def raise_def)

lemma keeps_pass: "keeps f pass"
  by (simp add: keeps_def pass_def)

lemma keeps_case_option:
  "keeps f a \<Longrightarrow> (\<And>v. keeps f (b v)) \<Longrightarrow> keeps f (case x of None \<Rightarrow> a | Some v \<Rightarrow> b v)"
  by (cases x) simp_all

lemma keeps_sys: "(\<And>s. g (fst (f s)) = g s) \<Longrightarrow> keeps (\<lambda>w. g (fsys w)) (sys c f)"
  by (simp add: keeps_def sys_def split_beta)

lemma keeps_sys_stdout: "keeps stdout (sys c f)"
  by (simp add: keeps_def sys_def split_beta)

lemma keeps_print_fsys: "keeps (\<lambda>w. g (fsys w)) (print l)"
  by (simp add: keeps_def print_def)

subsection \<open>The log only grows\<close>

lemma opened_append: "opened (xs @ ys) = opened xs @ opened ys"
  by (induction xs rule: opened.induct) simp_all

lemma logsD: "logs a \<Longrightarrow> \<exists>ext. calls (fst (a w)) = calls w @ ext"
  by (simp add: logs_def)

lemma logs_and_then: 
  assumes "logs a" "logs b" 
  shows "logs (and_then a b)"
  unfolding logs_def
proof
  fix w
  from logsD [OF assms(1), of w] obtain e1 where e1: "calls (fst (a w)) = calls w @ e1" ..
  from logsD [OF assms(2), of "fst (a w)"] obtain e2
    where e2: "calls (fst (b (fst (a w)))) = calls (fst (a w)) @ e2" ..
  show "\<exists>ext. calls (fst (and_then a b w)) = calls w @ ext"
  proof (cases "snd (a w) = None")
    case True
    then show ?thesis using e1 e2 by (simp add: fst_and_then)
  next
    case False
    then show ?thesis using e1 by (simp add: and_then_fail)
  qed
qed

lemma logs_sys: "logs (sys c f)"
  by (simp add: logs_def sys_eq)

lemma logs_raise: "logs (raise e)"
  by (simp add: logs_def raise_def)

lemma logs_pass: "logs pass"
  by (simp add: logs_def pass_def)

lemma logs_print: "logs (print l)"
  by (simp add: logs_def print_def)

lemma logs_case_option:
  "logs a \<Longrightarrow> (\<And>v. logs (b v)) \<Longrightarrow> logs (case x of None \<Rightarrow> a | Some v \<Rightarrow> b v)"
  by (cases x) simp_all

subsection \<open>Opening and writing a file\<close>

lemma open_w_frame:
  "dirs (fst (open_w p s)) = dirs s" "denied (fst (open_w p s)) = denied s"
  "q \<noteq> p \<Longrightarrow> files (fst (open_w p s)) q = files s q"
  by (simp_all add: open_w_def)

lemma open_w_fst:
  "snd (open_w p s) = None \<Longrightarrow>
   fst (open_w p s) = s\<lparr>files := (files s)(p \<mapsto> []), free := free s + old_size s p\<rparr>"
  by (auto simp: open_w_def split: if_splits)

lemma open_w_fail: "snd (open_w p s) \<noteq> None \<Longrightarrow> fst (open_w p s) = s"
  by (auto simp: open_w_def split: if_splits)

lemma open_w_exn:
  "snd (open_w p s) = Some e \<Longrightarrow> exn_filename e = Some p"
  by (auto simp: open_w_def split: if_splits)

lemma can_open_iff:
  "can_open s p \<longleftrightarrow>
     p \<noteq> [] \<and> p \<notin> dirs s \<and> \<not> endswith_sep p \<and> \<not> is_file s (parent p)
     \<and> is_dir s (parent p) \<and> p \<notin> denied s"
  by (simp add: can_open_def open_w_def)

lemma file_write_frame:
  "dirs (fst (file_write p data s)) = dirs s" "denied (fst (file_write p data s)) = denied s"
  "q \<noteq> p \<Longrightarrow> files (fst (file_write p data s)) q = files s q"
  by (simp_all add: file_write_def append_data_def)

lemma append_data_twice: "append_data p b (append_data p a s) = append_data p (a @ b) s"
  by (simp add: append_data_def split: option.splits)

lemma free_append_data: "free (append_data p a s) = free s - length a"
  by (simp add: append_data_def)

lemma files_append_data_open:
  "snd (open_w p s) = None \<Longrightarrow> files (append_data p l (fst (open_w p s))) p = Some l"
  by (simp add: open_w_fst append_data_def)

lemma f_write_snd: "snd (f_write p data w) = None \<longleftrightarrow> length data \<le> free (fsys w)"
  by (simp add: f_write_def sys_eq file_write_def)

lemma f_write_fsys:
  "length data \<le> free (fsys w) \<Longrightarrow> fsys (fst (f_write p data w)) = append_data p data (fsys w)"
  by (simp add: f_write_def sys_eq file_write_def)

lemma f_write_exn: "snd (f_write p data w) = Some e \<Longrightarrow> e = NoSpaceError"
  by (auto simp: f_write_def sys_eq file_write_def split: if_splits)

lemma keeps_opened_f_write: "keeps (\<lambda>w. opened (calls w)) (f_write p data)"
  by (simp add: keeps_def f_write_def sys_eq opened_append)

subsection \<open>Directory creation\<close>

lemma os_mkdir_frame:
  "files (fst (os_mkdir p s)) = files s" "denied (fst (os_mkdir p s)) = denied s"
  "free (fst (os_mkdir p s)) = free s"
  by (simp_all add: os_mkdir_def)

lemma os_mkdir_dirs:
  "dirs (fst (os_mkdir p s)) = (if snd (os_mkdir p s) = None then insert p (dirs s) else dirs s)"
  by (simp add: os_mkdir_def)

lemma os_mkdir_exists: "p \<in> dirs s \<Longrightarrow> fst (os_mkdir p s) = s"
  by (simp add: os_mkdir_def)

lemma mk_parents_frame:
  "files (fst (mk_parents ps s)) = files s \<and> denied (fst (mk_parents ps s)) = denied s
   \<and> free (fst (mk_parents ps s)) = free s"
proof (induction ps arbitrary: s)
  case Nil
  then show ?case by simp
next
  case (Cons p ps)
  show ?case
  proof (cases "p \<in> dirs s")
    case True
    then show ?thesis using Cons.IH [of s] by simp
  next
    case False
    obtain s' x where m: "os_mkdir p s = (s', x)" by (cases "os_mkdir p s")
    then have "files s' = files s \<and> denied s' = denied s \<and> free s' = free s"
      using os_mkdir_frame [of p s] by simp
    then show ?thesis using False m Cons.IH [of s']
      by (cases x) simp_all
  qed
qed

lemma mk_parents_dirs:
  "dirs s \<subseteq> dirs (fst (mk_parents ps s)) \<and> dirs (fst (mk_parents ps s)) \<subseteq> dirs s \<union> set ps
   \<and> (snd (mk_parents ps s) = None \<longrightarrow> set ps \<subseteq> dirs (fst (mk_parents ps s)))"
proof (induction ps arbitrary: s)
  case Nil
  then show ?case by simp
next
  case (Cons p ps)
  show ?case
  proof (cases "p \<in> dirs s")
    case True
    then show ?thesis using Cons.IH [of s] by auto
  next
    case False
    obtain s' x where m: "os_mkdir p s = (s', x)" by (cases "os_mkdir p s")
    then have d: "dirs s' = (if x = None then insert p (dirs s) else dirs s)"
      using os_mkdir_dirs [of p s] by simp
    show ?thesis
    proof (cases x)
      case None
      then show ?thesis using False m d Cons.IH [of s'] by auto
    next
      case (Some e)
      then show ?thesis using False m d by auto
    qed
  qed
qed

lemma mk_parents_exist: "set ps \<subseteq> dirs s \<Longrightarrow> mk_parents ps s = (s, None)"
  by (induction ps) simp_all

lemma os_makedirs_frame:
  "files (fst (os_makedirs d s)) = files s" "denied (fst (os_makedirs d s)) = denied s"
  "free (fst (os_makedirs d s)) = free s"
  using mk_parents_frame [of "ancestors d" s]
        os_mkdir_frame [of d "fst (mk_parents (ancestors d) s)"]
  by (auto simp: os_makedirs_def split: prod.splits option.splits)

lemma os_makedirs_dirs:
  "dirs s \<subseteq> dirs (fst (os_makedirs d s))"
  "dirs (fst (os_makedirs d s)) \<subseteq> dirs s \<union> set (ancestors d) \<union> {d}"
  using mk_parents_dirs [of s "ancestors d"]
        os_mkdir_dirs [of d "fst (mk_parents (ancestors d) s)"]
  by (auto simp: os_makedirs_def split: prod.splits option.splits if_splits)

lemma os_makedirs_success:
  "snd (os_makedirs d s) = None \<Longrightarrow>
   d \<in> dirs (fst (os_makedirs d s)) \<and> set (ancestors d) \<subseteq> dirs (fst (os_makedirs d s))"
  using mk_parents_dirs [of s "ancestors d"]
        os_mkdir_dirs [of d "fst (mk_parents (ancestors d) s)"]
  by (auto simp: os_makedirs_def split: prod.splits option.splits if_splits)

lemma os_makedirs_dirs_eq:
  assumes "snd (os_makedirs d s) = None"
  shows "dirs (fst (os_makedirs d s)) = dirs s \<union> set (ancestors d) \<union> {d}"
  using os_makedirs_dirs [where s = s and d = d] os_makedirs_success [OF assms] by auto

lemma os_makedirs_exists:
  "d \<in> dirs s \<Longrightarrow> set (ancestors d) \<subseteq> dirs s \<Longrightarrow> os_makedirs d s = (s, None)"
  using os_mkdir_exists [of d s]
  by (auto simp: os_makedirs_def mk_parents_exist split: prod.splits option.splits)

subsection \<open>The loop body\<close>

text \<open>
  The body succeeds exactly when the record has its two mandatory fields, the file can
  be opened and the device has room for the layout; the file system it leaves is the
  opened one with the layout appended.
\<close>

lemma keeps_write_rule_gen:
  assumes "\<And>s. g (fst (open_w (os_path_join d k) s)) = g s"
      and "\<And>data s. g (fst (file_write (os_path_join d k) data s)) = g s"
  shows "keeps (\<lambda>w. g (fsys w)) (write_rule d k r)"
  unfolding write_rule_def Let_def f_write_def
  by (intro keeps_and_then keeps_case_option keeps_sys keeps_raise keeps_pass assms)

lemma keeps_write_rule_dirs: "keeps (\<lambda>w. dirs (fsys w)) (write_rule d k r)"
  by (rule keeps_write_rule_gen) (simp_all add: open_w_frame file_write_frame)

lemma keeps_write_rule_denied: "keeps (\<lambda>w. denied (fsys w)) (write_rule d k r)"
  by (rule keeps_write_rule_gen) (simp_all add: open_w_frame file_write_frame)

lemma keeps_write_rule_files:
  "q \<noteq> os_path_join d k \<Longrightarrow> keeps (\<lambda>w. files (fsys w) q) (write_rule d k r)"
  by (rule keeps_write_rule_gen) (simp_all add: open_w_frame file_write_frame)

lemma keeps_write_rule_stdout: "keeps stdout (write_rule d k r)"
  unfolding write_rule_def Let_def f_write_def
  by (intro keeps_and_then keeps_case_option keeps_sys_stdout keeps_raise keeps_pass)

lemma logs_write_rule: "logs (write_rule d k r)"
  unfolding write_rule_def Let_def f_write_def
  by (intro logs_and_then logs_case_option logs_sys logs_raise logs_pass)

lemma write_rule_success_iff:
  "snd (write_rule d k r w) = None \<longleftrightarrow>
     (\<exists>rt c. rule_type r = Some rt \<and> content r = Some c \<and>
        snd (open_w (os_path_join d k) (fsys w)) = None \<and>
        length (spec_layout rt (file_patterns r) (description r) c)
          \<le> free (fst (open_w (os_path_join d k) (fsys w))))"
  by (cases "rule_type r"; cases "content r"; cases "file_patterns r"; cases "description r")
     (auto simp: write_rule_def Let_def snd_and_then fst_and_then sys_eq raise_def pass_def
        f_write_snd f_write_fsys free_append_data spec_layout_def text_line_def blank_line_def)

lemma write_rule_fsys:
  assumes "snd (write_rule d k r w) = None" "rule_type r = Some rt" "content r = Some c"
  shows "fsys (fst (write_rule d k r w)) =
           append_data (os_path_join d k) (spec_layout rt (file_patterns r) (description r) c)
             (fst (open_w (os_path_join d k) (fsys w)))"
  using assms
  by (cases "file_patterns r"; cases "description r")
     (auto simp: write_rule_def Let_def snd_and_then fst_and_then sys_eq raise_def pass_def
        f_write_snd f_write_fsys free_append_data append_data_twice spec_layout_def
        text_line_def blank_line_def)

lemma write_rule_file:
  assumes "snd (write_rule d k r w) = None"
  shows "files (fsys (fst (write_rule d k r w))) (os_path_join d k) = rendering r
         \<and> rendering r \<noteq> None"
proof -
  from assms obtain rt c where f: "rule_type r = Some rt" "content r = Some c"
    and o: "snd (open_w (os_path_join d k) (fsys w)) = None"
    by (auto simp: write_rule_success_iff)
  show ?thesis
    by (simp add: write_rule_fsys [OF assms f] files_append_data_open [OF o] rendering_def f)
qed

lemma write_rule_free:
  assumes "snd (write_rule d k r w) = None" "rendering r = Some l"
  shows "free (fsys (fst (write_rule d k r w)))
           = free (fsys w) + old_size (fsys w) (os_path_join d k) - length l"
proof -
  from assms(2) obtain rt c where f: "rule_type r = Some rt" "content r = Some c"
    and l: "l = spec_layout rt (file_patterns r) (description r) c"
    by (auto simp: rendering_def split: option.splits)
  from assms(1) have o: "snd (open_w (os_path_join d k) (fsys w)) = None"
    by (auto simp: write_rule_success_iff)
  show ?thesis
    by (simp add: write_rule_fsys [OF assms(1) f] free_append_data open_w_fst [OF o] l)
qed

lemma write_rule_opened:
  "opened (calls (fst (write_rule d k r w))) = opened (calls w) @ [os_path_join d k]"
proof -
  let ?p = "os_path_join d k"
  have rest: "keeps (\<lambda>w. opened (calls w))
     (and_then (case rule_type r of
                     None \<Rightarrow> raise (KeyError ''rule_type'')
                   | Some rt \<Rightarrow> f_write ?p (''Rule Type: '' @ rt @ ''\<newline>\<newline>''))
        (and_then (case file_patterns r of
                     None \<Rightarrow> pass
                   | Some ps \<Rightarrow>
                       f_write ?p
                         (''File Pattern Matches: '' @ str_join '', '' ps @ ''\<newline>\<newline>''))
        (and_then (case description r of
                     None \<Rightarrow> pass
                   | Some d \<Rightarrow> f_write ?p (''Description: '' @ d @ ''\<newline>\<newline>''))
                  (case content r of
                     None \<Rightarrow> raise (KeyError ''content'')
                   | Some c \<Rightarrow> f_write ?p c))))"
    by (intro keeps_and_then keeps_case_option keeps_opened_f_write keeps_raise keeps_pass)
  show ?thesis
    unfolding write_rule_def Let_def
    by (simp only: keeps_after [OF rest]) (simp add: sys_eq opened_append)
qed

lemma write_rule_open_fails:
  "snd (open_w (os_path_join d k) (fsys w)) \<noteq> None \<Longrightarrow>
   fsys (fst (write_rule d k r w)) = fsys w"
  unfolding write_rule_def Let_def
  by (subst and_then_fail) (simp_all add: sys_eq open_w_fail)

lemma write_rule_exn_cases:
  assumes "snd (write_rule d k r w) = Some e"
  shows "snd (open_w (os_path_join d k) (fsys w)) = Some e
           \<and> exn_filename e = Some (os_path_join d k)
         \<or> snd (open_w (os_path_join d k) (fsys w)) = None
           \<and> (e = NoSpaceError \<or> e = KeyError ''rule_type'' \<or> e = KeyError ''content'')"
proof (cases "snd (open_w (os_path_join d k) (fsys w)) = None")
  case True
  then have "snd (sys (Open (os_path_join d k)) (open_w (os_path_join d k)) w) = None"
    by (simp add: sys_eq)
  with assms have "e = NoSpaceError \<or> e = KeyError ''rule_type'' \<or> e = KeyError ''content''"
    unfolding write_rule_def Let_def
    by (elim and_then_exnE)
       (auto simp: raise_def pass_def split: option.splits dest: f_write_exn)
  with True show ?thesis by simp
next
  case False
  then have "write_rule d k r w = sys (Open (os_path_join d k)) (open_w (os_path_join d k)) w"
    unfolding write_rule_def Let_def by (subst and_then_fail) (simp_all add: sys_eq)
  with assms have "snd (open_w (os_path_join d k) (fsys w)) = Some e" by (simp add: sys_eq)
  then show ?thesis using open_w_exn by simp
qed

lemma write_rule_can_open:
  assumes "can_open (fsys w) p"
  shows "can_open (fsys (fst (write_rule d k r w))) p"
proof -
  let ?q = "os_path_join d k"
  let ?s' = "fsys (fst (write_rule d k r w))"
  have d: "dirs ?s' = dirs (fsys w)" and n: "denied ?s' = denied (fsys w)"
    using keepsD [OF keeps_write_rule_dirs] keepsD [OF keeps_write_rule_denied] by auto
  have "files ?s' (parent p) = files (fsys w) (parent p)"
  proof (cases "parent p = ?q")
    case True
    have "snd (open_w ?q (fsys w)) \<noteq> None"
      using assms True by (auto simp: can_open_iff open_w_def is_dir_def)
    then show ?thesis by (simp add: write_rule_open_fails)
  next
    case False
    then show ?thesis using keepsD [OF keeps_write_rule_files [of "parent p" d k r]] by simp
  qed
  then show ?thesis
    using assms by (simp add: can_open_iff d n is_file_def is_dir_def)
qed

lemma write_rule_again:
  assumes "files (fsys w) (os_path_join d k) = rendering r" "rendering r \<noteq> None"
      and "can_open (fsys w) (os_path_join d k)"
  shows "snd (write_rule d k r w) = None \<and> fsys (fst (write_rule d k r w)) = fsys w"
proof -
  let ?p = "os_path_join d k"
  from assms(2) obtain rt c where f: "rule_type r = Some rt" "content r = Some c"
    by (auto simp: rendering_def split: option.splits)
  let ?l = "spec_layout rt (file_patterns r) (description r) c"
  have r: "files (fsys w) ?p = Some ?l" using assms(1) f by (simp add: rendering_def)
  have o: "snd (open_w ?p (fsys w)) = None" using assms(3) by (simp add: can_open_def)
  have ok: "snd (write_rule d k r w) = None"
    by (simp add: write_rule_success_iff f o open_w_fst [OF o] old_size_def r)
  have "fsys (fst (write_rule d k r w)) = fsys w"
    by (simp add: write_rule_fsys [OF ok f] open_w_fst [OF o] append_data_def old_size_def r
          fun_upd_idem)
  with ok show ?thesis by simp
qed

subsection \<open>The loop\<close>

lemma keeps_emit_loop:
  "(\<And>k r. (k, r) \<in> set t \<Longrightarrow> keeps f (write_rule d k r)) \<Longrightarrow> keeps f (emit_loop d t)"
  by (induction t) (auto intro!: keeps_and_then keeps_pass)

lemma logs_emit_loop: "logs (emit_loop d t)"
  by (induction t) (auto intro!: logs_and_then logs_pass logs_write_rule)

lemma emit_loop_files_frame:
  "q \<notin> set (filepaths d t) \<Longrightarrow> files (fsys (fst (emit_loop d t w))) q = files (fsys w) q"
  by (rule keepsD [OF keeps_emit_loop [where f = "\<lambda>w. files (fsys w) q"]])
     (rule keeps_write_rule_files, force simp: filepaths_def)

lemma emit_loop_dirs: "dirs (fsys (fst (emit_loop d t w))) = dirs (fsys w)"
  by (rule keepsD [OF keeps_emit_loop [where f = "\<lambda>w. dirs (fsys w)"]])
     (rule keeps_write_rule_dirs)

lemma emit_loop_stdout: "stdout (fst (emit_loop d t w)) = stdout w"
  by (rule keepsD [OF keeps_emit_loop [where f = stdout]]) (rule keeps_write_rule_stdout)

lemma emit_loop_files:
  "snd (emit_loop d t w) = None \<Longrightarrow> distinct (filepaths d t) \<Longrightarrow> (k, r) \<in> set t \<Longrightarrow>
   files (fsys (fst (emit_loop d t w))) (os_path_join d k) = rendering r \<and> rendering r \<noteq> None"
proof (induction t arbitrary: w)
  case Nil
  then show ?case by simp
next
  case (Cons a t)
  obtain k' r' where a: "a = (k', r')" by (cases a)
  from Cons.prems(1) have ok: "snd (write_rule d k' r' w) = None"
    and rest: "snd (emit_loop d t (fst (write_rule d k' r' w))) = None"
    by (simp_all add: a snd_and_then)
  from Cons.prems(2) have fresh: "os_path_join d k' \<notin> set (filepaths d t)"
    and dist: "distinct (filepaths d t)"
    by (simp_all add: a filepaths_def)
  show ?case
  proof (cases "(k, r) = (k', r')")
    case True
    then show ?thesis
      using write_rule_file [OF ok] emit_loop_files_frame [OF fresh]
      by (simp add: a fst_and_then ok)
  next
    case False
    with Cons.prems(3) have "(k, r) \<in> set t" by (auto simp: a)
    from Cons.IH [OF rest dist this] show ?thesis
      by (simp add: a fst_and_then ok)
  qed
qed

lemma filepaths_snoc: "filepaths d (pre @ [(k, r)]) = filepaths d pre @ [os_path_join d k]"
  by (simp add: filepaths_def)

lemma emit_loop_opened:
  "snd (emit_loop d t w) = None \<Longrightarrow>
   opened (calls (fst (emit_loop d t w))) = opened (calls w) @ filepaths d t"
proof (induction t arbitrary: w)
  case Nil
  then show ?case by (simp add: pass_def filepaths_def)
next
  case (Cons a t)
  obtain k r where a: "a = (k, r)" by (cases a)
  from Cons.prems have ok: "snd (write_rule d k r w) = None"
    and rest: "snd (emit_loop d t (fst (write_rule d k r w))) = None"
    by (simp_all add: a snd_and_then)
  show ?case
    using Cons.IH [OF rest]
    by (simp add: a fst_and_then ok write_rule_opened filepaths_def)
qed

lemma emit_loop_opened_prefix:
  "\<exists>n. opened (calls (fst (emit_loop d t w))) = opened (calls w) @ take n (filepaths d t)"
proof (induction t arbitrary: w)
  case Nil
  show ?case by (simp add: pass_def filepaths_def)
next
  case (Cons a t)
  obtain k r where a: "a = (k, r)" by (cases a)
  show ?case
  proof (cases "snd (write_rule d k r w) = None")
    case True
    from Cons.IH [of "fst (write_rule d k r w)"] obtain n
      where "opened (calls (fst (emit_loop d t (fst (write_rule d k r w)))))
               = opened (calls (fst (write_rule d k r w))) @ take n (filepaths d t)" ..
    then have "opened (calls (fst (emit_loop d (a # t) w)))
               = opened (calls w) @ take (Suc n) (filepaths d (a # t))"
      using True by (simp add: a fst_and_then write_rule_opened filepaths_def)
    then show ?thesis ..
  next
    case False
    then have "opened (calls (fst (emit_loop d (a # t) w)))
               = opened (calls w) @ take (Suc 0) (filepaths d (a # t))"
      by (simp add: a and_then_fail write_rule_opened filepaths_def)
    then show ?thesis ..
  qed
qed

lemma emit_loop_Some:
  "emit_loop d t w = (w', Some e) \<Longrightarrow>
   \<exists>pre k r post w1. t = pre @ (k, r) # post \<and> emit_loop d pre w = (w1, None)
      \<and> write_rule d k r w1 = (w', Some e)"
proof (induction t arbitrary: w)
  case Nil
  then show ?case by (simp add: pass_def)
next
  case (Cons a t)
  obtain k r where a: "a = (k, r)" by (cases a)
  from Cons.prems
  consider "write_rule d k r w = (w', Some e)"
    | w1 where "write_rule d k r w = (w1, None)" "emit_loop d t w1 = (w', Some e)"
    by (auto simp: a and_then_Some)
  then show ?case
  proof cases
    case 1
    then have "a # t = [] @ (k, r) # t \<and> emit_loop d [] w = (w, None)
       \<and> write_rule d k r w = (w', Some e)"
      by (simp add: a pass_def)
    then show ?thesis by blast
  next
    case 2
    from Cons.IH [OF 2(2)] obtain pre k' r' post w2
      where t: "t = pre @ (k', r') # post" and p: "emit_loop d pre w1 = (w2, None)"
        and f: "write_rule d k' r' w2 = (w', Some e)"
      by blast
    have "a # t = ((k, r) # pre) @ (k', r') # post \<and> emit_loop d ((k, r) # pre) w = (w2, None)
       \<and> write_rule d k' r' w2 = (w', Some e)"
      using t p f 2(1) by (simp add: a and_then_def)
    then show ?thesis by blast
  qed
qed

lemma emit_loop_can_open:
  "can_open (fsys w) p \<Longrightarrow> can_open (fsys (fst (emit_loop d t w))) p"
proof (induction t arbitrary: w)
  case Nil
  then show ?case by (simp add: pass_def)
next
  case (Cons a t)
  obtain k r where a: "a = (k, r)" by (cases a)
  show ?case
  proof (cases "snd (write_rule d k r w) = None")
    case True
    then show ?thesis
      using Cons.IH [OF write_rule_can_open [OF Cons.prems]] by (simp add: a fst_and_then)
  next
    case False
    then have "fst (emit_loop d (a # t) w) = fst (write_rule d k r w)"
      by (simp add: a and_then_fail)
    then show ?thesis using write_rule_can_open [OF Cons.prems] by simp
  qed
qed

lemma emit_loop_all_can_open:
  "snd (emit_loop d t w) = None \<Longrightarrow> (k, r) \<in> set t \<Longrightarrow>
   can_open (fsys (fst (emit_loop d t w))) (os_path_join d k)"
proof (induction t arbitrary: w)
  case Nil
  then show ?case by simp
next
  case (Cons a t)
  obtain k' r' where a: "a = (k', r')" by (cases a)
  from Cons.prems(1) have ok: "snd (write_rule d k' r' w) = None"
    and rest: "snd (emit_loop d t (fst (write_rule d k' r' w))) = None"
    by (simp_all add: a snd_and_then)
  show ?case
  proof (cases "(k, r) = (k', r')")
    case True
    from ok have "can_open (fsys w) (os_path_join d k')"
      by (auto simp: write_rule_success_iff can_open_def)
    from emit_loop_can_open [OF write_rule_can_open [OF this]] show ?thesis
      using True by (simp add: a fst_and_then ok)
  next
    case False
    with Cons.prems(2) have "(k, r) \<in> set t" by (auto simp: a)
    from Cons.IH [OF rest this] show ?thesis by (simp add: a fst_and_then ok)
  qed
qed

lemma emit_loop_again:
  assumes "\<And>k r. (k, r) \<in> set t \<Longrightarrow>
             files (fsys w) (os_path_join d k) = rendering r \<and> rendering r \<noteq> None
             \<and> can_open (fsys w) (os_path_join d k)"
  shows "snd (emit_loop d t w) = None \<and> fsys (fst (emit_loop d t w)) = fsys w"
  using assms
proof (induction t arbitrary: w)
  case Nil
  then show ?case by (simp add: pass_def)
next
  case (Cons a t)
  obtain k r where a: "a = (k, r)" by (cases a)
  have h: "snd (write_rule d k r w) = None \<and> fsys (fst (write_rule d k r w)) = fsys w"
    using Cons.prems [of k r] by (intro write_rule_again) (simp_all add: a)
  have "snd (emit_loop d t (fst (write_rule d k r w))) = None
      \<and> fsys (fst (emit_loop d t (fst (write_rule d k r w)))) = fsys (fst (write_rule d k r w))"
    by (rule Cons.IH) (use Cons.prems h in auto)
  with h show ?case by (simp add: a snd_and_then fst_and_then)
qed

lemma emit_loop_succeeds:
  assumes "\<And>k r. (k, r) \<in> set t \<Longrightarrow>
             can_open (fsys w) (os_path_join d k) \<and> rendering r \<noteq> None"
      and "rendered_size t \<le> free (fsys w)"
  shows "snd (emit_loop d t w) = None"
  using assms
proof (induction t arbitrary: w)
  case Nil
  then show ?case by (simp add: pass_def)
next
  case (Cons a t)
  obtain k r where a: "a = (k, r)" by (cases a)
  from Cons.prems(1) [of k r] obtain l where l: "rendering r = Some l"
    and o: "can_open (fsys w) (os_path_join d k)"
    by (auto simp: a)
  from l obtain rt c where f: "rule_type r = Some rt" "content r = Some c"
    and l': "l = spec_layout rt (file_patterns r) (description r) c"
    by (auto simp: rendering_def split: option.splits)
  from Cons.prems(2) have room: "length l + rendered_size t \<le> free (fsys w)"
    by (simp add: a rendered_size_def l)
  have ok: "snd (write_rule d k r w) = None"
    using o room
    by (simp add: write_rule_success_iff f can_open_def open_w_fst l' [symmetric])
  have "snd (emit_loop d t (fst (write_rule d k r w))) = None"
  proof (rule Cons.IH)
    fix k' r' assume "(k', r') \<in> set t"
    then show "can_open (fsys (fst (write_rule d k r w))) (os_path_join d k')
               \<and> rendering r' \<noteq> None"
      using Cons.prems(1) [of k' r'] by (simp add: write_rule_can_open)
  next
    show "rendered_size t \<le> free (fsys (fst (write_rule d k r w)))"
      using room by (simp add: write_rule_free [OF ok l])
  qed
  with ok show ?case by (simp add: a snd_and_then)
qed

lemma emit_loop_keeps_file:
  "snd (emit_loop d t w) = None \<Longrightarrow> is_file (fsys w) q \<Longrightarrow>
   is_file (fsys (fst (emit_loop d t w))) q"
proof (induction t arbitrary: w)
  case Nil
  then show ?case by (simp add: pass_def)
next
  case (Cons a t)
  obtain k r where a: "a = (k, r)" by (cases a)
  from Cons.prems(1) have ok: "snd (write_rule d k r w) = None"
    and rest: "snd (emit_loop d t (fst (write_rule d k r w))) = None"
    by (simp_all add: a snd_and_then)
  have "is_file (fsys (fst (write_rule d k r w))) q"
  proof (cases "q = os_path_join d k")
    case True
    then show ?thesis using write_rule_file [OF ok] by (simp add: is_file_def)
  next
    case False
    then show ?thesis
      using Cons.prems(2) keepsD [OF keeps_write_rule_files [of q d k r]]
      by (simp add: is_file_def)
  qed
  from Cons.IH [OF rest this] show ?case by (simp add: a fst_and_then ok)
qed

lemma emit_loop_is_file:
  "snd (emit_loop d t w) = None \<Longrightarrow> (k, r) \<in> set t \<Longrightarrow>
   is_file (fsys (fst (emit_loop d t w))) (os_path_join d k)"
proof (induction t arbitrary: w)
  case Nil
  then show ?case by simp
next
  case (Cons a t)
  obtain k' r' where a: "a = (k', r')" by (cases a)
  from Cons.prems(1) have ok: "snd (write_rule d k' r' w) = None"
    and rest: "snd (emit_loop d t (fst (write_rule d k' r' w))) = None"
    by (simp_all add: a snd_and_then)
  show ?case
  proof (cases "(k, r) = (k', r')")
    case True
    have "is_file (fsys (fst (write_rule d k' r' w))) (os_path_join d k')"
      using write_rule_file [OF ok] by (simp add: is_file_def)
    from emit_loop_keeps_file [OF rest this] show ?thesis
      using True by (simp add: a fst_and_then ok)
  next
    case False
    with Cons.prems(2) have "(k, r) \<in> set t" by (auto simp: a)
    from Cons.IH [OF rest this] show ?thesis by (simp add: a fst_and_then ok)
  qed
qed

subsection \<open>Paths of file names\<close>

lemma join_filename:
  "is_filename k \<Longrightarrow>
   os_path_join d k = (if d = [] \<or> endswith_sep d then d @ k else d @ ''/'' @ k)"
  by (cases k) (auto simp: os_path_join_def is_filename_def startswith_sep_def)

lemma dropWhile_upto_sep:
  "CHR ''/'' \<notin> set xs \<Longrightarrow>
   dropWhile (\<lambda>c. c \<noteq> CHR ''/'') (xs @ CHR ''/'' # ys) = CHR ''/'' # ys"
  by (induction xs) auto

lemma takeWhile_upto_sep:
  "CHR ''/'' \<notin> set xs \<Longrightarrow> takeWhile (\<lambda>c. c \<noteq> CHR ''/'') (xs @ CHR ''/'' # ys) = xs"
  by (induction xs) auto

lemma dropWhile_no_sep:
  "CHR ''/'' \<notin> set xs \<Longrightarrow> dropWhile (\<lambda>c. c \<noteq> CHR ''/'') xs = []"
  by (induction xs) auto

lemma takeWhile_no_sep:
  "CHR ''/'' \<notin> set xs \<Longrightarrow> takeWhile (\<lambda>c. c \<noteq> CHR ''/'') xs = xs"
  by (induction xs) auto

lemma parent_append_filename: "CHR ''/'' \<notin> set k \<Longrightarrow> parent (d @ CHR ''/'' # k) = d"
  by (simp add: parent_def dropWhile_upto_sep)

lemma basename_append_filename: "CHR ''/'' \<notin> set k \<Longrightarrow> basename (d @ CHR ''/'' # k) = k"
  by (simp add: basename_def takeWhile_upto_sep)

lemma parent_plain: "CHR ''/'' \<notin> set k \<Longrightarrow> parent k = []"
  by (simp add: parent_def dropWhile_no_sep)

lemma basename_plain: "CHR ''/'' \<notin> set k \<Longrightarrow> basename k = k"
  by (simp add: basename_def takeWhile_no_sep)

lemma endswith_sepD: "endswith_sep d \<Longrightarrow> \<exists>d'. d = d' @ ''/''"
  by (cases d rule: rev_cases) (auto simp: endswith_sep_def)

lemma filename_not_absolute: "is_filename k \<Longrightarrow> \<not> startswith_sep k"
  by (cases k) (auto simp: is_filename_def startswith_sep_def)

text \<open>Different file names are joined to different paths.\<close>

lemma distinct_filepaths:
  assumes "distinct (map fst t)" and "\<And>k r. (k, r) \<in> set t \<Longrightarrow> is_filename k"
  shows "distinct (filepaths d t)"
proof -
  have "inj_on (os_path_join d) (set (map fst t))"
  proof (rule inj_onI)
    fix k k' assume "k \<in> set (map fst t)" "k' \<in> set (map fst t)"
      and eq: "os_path_join d k = os_path_join d k'"
    then have "\<not> startswith_sep k" "\<not> startswith_sep k'"
      using assms(2) filename_not_absolute by auto
    with eq show "k = k'" by (auto simp: os_path_join_def split: if_splits)
  qed
  moreover have "filepaths d t = map (os_path_join d) (map fst t)"
    by (simp add: filepaths_def)
  ultimately show ?thesis using assms(1) by (simp only: distinct_map)
qed

lemma join_filename_place:
  assumes "is_filename k"
  shows "basename (os_path_join d k) = k \<and> inside_dir d (os_path_join d k)"
proof -
  from assms have k: "CHR ''/'' \<notin> set k" by (simp add: is_filename_def)
  consider "d = []" | "endswith_sep d" | "d \<noteq> []" "\<not> endswith_sep d" by blast
  then show ?thesis
  proof cases
    case 1
    then show ?thesis
      using k by (simp add: join_filename [OF assms] basename_plain parent_plain inside_dir_def)
  next
    case 2
    then obtain d' where d: "d = d' @ ''/''" using endswith_sepD by blast
    have "os_path_join d k = d' @ ''/'' @ k" using 2 by (simp add: join_filename [OF assms] d)
    then show ?thesis
      using k by (simp add: basename_append_filename parent_append_filename inside_dir_def d)
  next
    case 3
    then have "os_path_join d k = d @ ''/'' @ k" by (simp add: join_filename [OF assms])
    then show ?thesis
      using k by (simp add: basename_append_filename parent_append_filename inside_dir_def)
  qed
qed

subsection \<open>The module body\<close>

lemma snd_run_script:
  "snd (run_script t d w) = None \<longleftrightarrow>
     snd (os_makedirs d (fsys w)) = None \<and>
     snd (emit_loop d t (fst (sys (Makedirs d) (os_makedirs d) w))) = None"
  by (simp add: run_script_def snd_and_then sys_eq print_def)

lemma fst_run_script:
  "snd (run_script t d w) = None \<Longrightarrow>
   fst (run_script t d w) =
     (fst (emit_loop d t (fst (sys (Makedirs d) (os_makedirs d) w))))
       \<lparr>stdout := stdout w @ [success_message d]\<rparr>"
  by (simp add: run_script_def snd_and_then fst_and_then sys_eq print_def emit_loop_stdout)

lemma fsys_run_script:
  "snd (run_script t d w) = None \<Longrightarrow>
   fsys (fst (run_script t d w)) =
     fsys (fst (emit_loop d t (fst (sys (Makedirs d) (os_makedirs d) w))))"
  by (simp add: fst_run_script)

lemma fsys_after_makedirs:
  "fsys (fst (sys (Makedirs d) (os_makedirs d) w)) = fst (os_makedirs d (fsys w))"
  by (simp add: sys_eq)

lemma run_script_fail:
  "snd (run_script t d w) \<noteq> None \<Longrightarrow>
   run_script t d w =
     (if snd (os_makedirs d (fsys w)) = None
      then emit_loop d t (fst (sys (Makedirs d) (os_makedirs d) w))
      else sys (Makedirs d) (os_makedirs d) w)"
  by (auto simp: run_script_def and_then_def sys_eq print_def split: prod.splits option.splits)

lemma run_script_makedirs_fails:
  "snd (os_makedirs d (fsys w)) \<noteq> None \<Longrightarrow>
   run_script t d w = sys (Makedirs d) (os_makedirs d) w"
  by (simp add: run_script_def and_then_fail sys_eq)

lemma run_script_loop_fails:
  assumes "snd (os_makedirs d (fsys w)) = None" "snd (run_script t d w) = Some e"
  shows "run_script t d w = emit_loop d t (fst (sys (Makedirs d) (os_makedirs d) w))"
  using assms run_script_fail [of t d w] by simp

lemma run_script_stdout_fail:
  assumes "snd (run_script t d w) \<noteq> None"
  shows "stdout (fst (run_script t d w)) = stdout w"
proof -
  note r = run_script_fail [OF assms]
  show ?thesis
    by (cases "snd (os_makedirs d (fsys w)) = None")
       (simp_all add: r emit_loop_stdout, simp_all add: sys_eq)
qed

lemma run_script_calls:
  "\<exists>rest. calls (fst (run_script t d w)) = calls w @ Makedirs d # rest"
proof -
  have "logs (and_then (emit_loop d t) (print (success_message d)))"
    by (intro logs_and_then logs_emit_loop logs_print)
  from logsD [OF this, of "fst (sys (Makedirs d) (os_makedirs d) w)"]
  obtain ext where e: "calls (fst (and_then (emit_loop d t) (print (success_message d))
                      (fst (sys (Makedirs d) (os_makedirs d) w))))
                  = calls (fst (sys (Makedirs d) (os_makedirs d) w)) @ ext" ..
  show ?thesis
  proof (cases "snd (sys (Makedirs d) (os_makedirs d) w) = None")
    case True
    then show ?thesis using e by (simp add: run_script_def fst_and_then sys_eq)
  next
    case False
    then show ?thesis by (simp add: run_script_def and_then_fail) (simp add: sys_eq)
  qed
qed

lemma run_script_opened:
  assumes "snd (run_script t d w) = None"
  shows "opened (calls (fst (run_script t d w))) = opened (calls w) @ filepaths d t"
proof -
  from assms have loop: "snd (emit_loop d t (fst (sys (Makedirs d) (os_makedirs d) w))) = None"
    by (simp add: snd_run_script)
  show ?thesis
    using emit_loop_opened [OF loop]
    by (simp add: fst_run_script [OF assms]) (simp add: sys_eq opened_append)
qed

lemma run_script_opened_prefix:
  "\<exists>n. opened (calls (fst (run_script t d w))) = opened (calls w) @ take n (filepaths d t)"
proof (cases "snd (run_script t d w) = None")
  case True
  from run_script_opened [OF this]
  have "opened (calls (fst (run_script t d w)))
          = opened (calls w) @ take (length t) (filepaths d t)"
    by (simp add: filepaths_def)
  then show ?thesis ..
next
  case False
  show ?thesis
  proof (cases "snd (os_makedirs d (fsys w)) = None")
    case True
    with False have r: "run_script t d w
        = emit_loop d t (fst (sys (Makedirs d) (os_makedirs d) w))"
      using run_script_fail [of t d w] by simp
    from emit_loop_opened_prefix [of d t "fst (sys (Makedirs d) (os_makedirs d) w)"]
    show ?thesis by (simp add: r) (simp add: sys_eq opened_append)
  next
    case False
    then have "opened (calls (fst (run_script t d w)))
          = opened (calls w) @ take 0 (filepaths d t)"
      by (simp add: run_script_makedirs_fails) (simp add: sys_eq opened_append)
    then show ?thesis ..
  qed
qed

lemma run_script_dir_exists:
  assumes "snd (run_script t d w) = None"
  shows "d \<in> dirs (fsys (fst (run_script t d w)))
         \<and> set (ancestors d) \<subseteq> dirs (fsys (fst (run_script t d w)))"
proof -
  from assms have m: "snd (os_makedirs d (fsys w)) = None" by (simp add: snd_run_script)
  show ?thesis
    using os_makedirs_success [OF m]
    by (simp add: fsys_run_script [OF assms] emit_loop_dirs fsys_after_makedirs)
qed

lemma run_script_files_frame:
  assumes "q \<notin> set (filepaths d t)"
  shows "files (fsys (fst (run_script t d w))) q = files (fsys w) q"
proof -
  have "keeps (\<lambda>w. files (fsys w) q) (emit_loop d t)"
    by (rule keeps_emit_loop, rule keeps_write_rule_files) (use assms in \<open>force simp: filepaths_def\<close>)
  then have "keeps (\<lambda>w. files (fsys w) q) (run_script t d)"
    unfolding run_script_def
    by (intro keeps_and_then keeps_sys keeps_print_fsys) (simp_all add: os_makedirs_frame)
  then show ?thesis by (rule keepsD)
qed


lemma run_script_dirs:
  "dirs (fsys (fst (run_script t d w))) = dirs (fst (os_makedirs d (fsys w)))"
proof -
  have "keeps (\<lambda>w. dirs (fsys w)) (and_then (emit_loop d t) (print (success_message d)))"
    by (intro keeps_and_then keeps_print_fsys keeps_emit_loop keeps_write_rule_dirs)
  from keeps_after [OF this] show ?thesis
    by (simp add: run_script_def sys_eq)
qed

subsection \<open>The table of the script\<close>

lemma ends_with_newline_append: "ends_with_newline ys \<Longrightarrow> ends_with_newline (xs @ ys)"
  by (cases ys rule: rev_cases) (simp_all add: ends_with_newline_def)

lemma spec_layout_ends:
  "ends_with_newline c \<Longrightarrow> ends_with_newline (spec_layout rt ps ds c)"
  unfolding spec_layout_def by (intro ends_with_newline_append)

lemma contents_end_with_newline:
  "ends_with_newline content_always" "ends_with_newline content_testing"
  "ends_with_newline content_git_rules" "ends_with_newline content_build_planning"
  "ends_with_newline content_context_passing" "ends_with_newline content_manual"
  "ends_with_newline content_agent_requested"
  unfolding content_always_def content_testing_def content_git_rules_def
    content_build_planning_def content_context_passing_def content_manual_def
    content_agent_requested_def
  by (intro ends_with_newline_append, simp add: ends_with_newline_def)+

lemma content_lengths:
  "length content_always = 831" "length content_testing = 851"
  "length content_git_rules = 709" "length content_build_planning = 538"
  "length content_context_passing = 575" "length content_manual = 469"
  "length content_agent_requested = 520"
  unfolding content_always_def content_testing_def content_git_rules_def
    content_build_planning_def content_context_passing_def content_manual_def
    content_agent_requested_def
  by (simp only: length_append, simp)+

lemma rules_keys:
  "map fst rules = [''always.mdc'', ''testing.mdc'', ''git-rules.mdc'', ''build-planning.mdc'',
     ''context-passing.mdc'', ''manual.mdc'', ''agent-requested.mdc'']"
  by (simp add: rules_def)

lemma rules_entries:
  "list_all (\<lambda>(k, r). is_filename k
      \<and> (\<exists>rt c. rule_type r = Some rt \<and> content r = Some c \<and> ends_with_newline c)) rules"
  by (simp add: rules_def is_filename_def contents_end_with_newline)

lemma rules_filepaths:
  "filepaths rules_dir rules =
     [''.cursor/rules/always.mdc'', ''.cursor/rules/testing.mdc'',
      ''.cursor/rules/git-rules.mdc'', ''.cursor/rules/build-planning.mdc'',
      ''.cursor/rules/context-passing.mdc'', ''.cursor/rules/manual.mdc'',
      ''.cursor/rules/agent-requested.mdc'']"
  by (simp add: filepaths_def rules_def rules_dir_def os_path_join_def startswith_sep_def
        endswith_sep_def)

lemma rules_filepaths_distinct: "distinct (filepaths rules_dir rules)"
  by (simp add: rules_filepaths)

lemma rules_filepaths_inside: "list_all (\<lambda>p. parent p = rules_dir) (filepaths rules_dir rules)"
  unfolding rules_filepaths by (simp add: rules_dir_def parent_def)

lemma rules_rendered_size: "rendered_size rules = 4972"
  by (simp add: rendered_size_def rules_def rendering_def spec_layout_def text_line_def
        blank_line_def content_lengths)

lemma makedirs_fresh:
  "os_makedirs rules_dir fresh_fs = (fresh_fs\<lparr>dirs := {''.cursor'', ''.cursor/rules''}\<rparr>, None)"
  by (simp add: rules_dir_def os_makedirs_def ancestors_def endswith_sep_def os_mkdir_def
        is_file_def is_dir_def parent_def fresh_fs_def insert_commute)

lemma program_runs: "snd (run_script rules rules_dir fresh) = None"
proof -
  let ?w = "fst (sys (Makedirs rules_dir) (os_makedirs rules_dir) fresh)"
  have s: "fsys ?w = fresh_fs\<lparr>dirs := {''.cursor'', ''.cursor/rules''}\<rparr>"
    by (simp add: sys_eq fresh_def makedirs_fresh)
  have "snd (emit_loop rules_dir rules ?w) = None"
  proof (rule emit_loop_succeeds)
    fix k r assume "(k, r) \<in> set rules"
    then have p: "os_path_join rules_dir k \<in> set (filepaths rules_dir rules)"
      and r: "rendering r \<noteq> None"
      by (force simp: filepaths_def, auto simp: rules_def rendering_def)
    from p have "can_open (fsys ?w) (os_path_join rules_dir k)"
      unfolding rules_filepaths s
      by (auto simp: can_open_iff fresh_fs_def endswith_sep_def is_file_def is_dir_def
            parent_def)
    with r show "can_open (fsys ?w) (os_path_join rules_dir k) \<and> rendering r \<noteq> None" by simp
  next
    show "rendered_size rules \<le> free (fsys ?w)"
      by (simp add: s rules_rendered_size fresh_fs_def)
  qed
  then show ?thesis
    by (simp add: snd_run_script fresh_def makedirs_fresh)
qed

text \<open>Unfolding these definitions evaluates the model on a concrete input.\<close>

lemmas eval_defs =
  run_script_def and_then_def sys_def os_makedirs_def ancestors_def
  endswith_sep_def startswith_sep_def os_mkdir_def is_file_def is_dir_def parent_def
  write_rule_def f_write_def Let_def os_path_join_def open_w_def file_write_def append_data_def
  raise_def pass_def print_def old_size_def filepaths_def fresh_def fresh_fs_def

section \<open>The claims\<close>

text \<open>
  C1. For every record of the table, once the script has run to its end, the file at the
  record's path consists exactly of the line \<^verbatim>\<open>Rule Type: <rule_type>\<close> and a blank
  line, then (if the record has patterns) the line of the joined patterns and a blank
  line, then (if it has a description) the description line and a blank line, then the
  content verbatim: the sequence of writes of the loop body produces the layout the
  specification gives. The records are written to pairwise distinct paths, as the
  entries of a dictionary keyed by file names are.
\<close>

theorem emitted_file_layout:
  assumes "run_script table d w = (w', None)"
      and "distinct (filepaths d table)"
      and "(k, r) \<in> set table"
  shows "\<exists>rt c. rule_type r = Some rt \<and> content r = Some c \<and>
           files (fsys w') (os_path_join d k)
             = Some (spec_layout rt (file_patterns r) (description r) c)"
proof -
  from assms(1) have ok: "snd (run_script table d w) = None" by simp
  then have loop: "snd (emit_loop d table (fst (sys (Makedirs d) (os_makedirs d) w))) = None"
    by (simp add: snd_run_script)
  have "w' = fst (run_script table d w)" using assms(1) by simp
  then have "files (fsys w') (os_path_join d k) = rendering r \<and> rendering r \<noteq> None"
    using emit_loop_files [OF loop assms(2,3)] by (simp add: fst_run_script [OF ok])
  then show ?thesis
    by (auto simp: rendering_def split: option.splits)
qed

text \<open>
  The two example scenarios of the specification: the record
  \<^verbatim>\<open>{filename: "x.mdc", rule_type: "Always", content: "hello\n"}\<close>, and the same
  record with the patterns \<^verbatim>\<open>["*.py", "tests/**"]\<close>.
\<close>

theorem emitted_file_layout_witness:
  "files (fsys (fst (run_script [(''x.mdc'', example_record)] ''targetDir'' fresh)))
     ''targetDir/x.mdc''
     = Some ''Rule Type: Always\<newline>\<newline>hello\<newline>''
   \<and> files (fsys (fst (run_script [(''x.mdc'', example_record_patterns)] ''targetDir'' fresh)))
     ''targetDir/x.mdc''
     = Some ''Rule Type: Always\<newline>\<newline>File Pattern Matches: *.py, tests/**\<newline>\<newline>hello\<newline>''"
proof -
  have a: "run_script [(''x.mdc'', example_record)] ''targetDir'' fresh
        = (fst (run_script [(''x.mdc'', example_record)] ''targetDir'' fresh), None)"
    by (simp add: eval_defs example_record_def)
  have b: "run_script [(''x.mdc'', example_record_patterns)] ''targetDir'' fresh
        = (fst (run_script [(''x.mdc'', example_record_patterns)] ''targetDir'' fresh), None)"
    by (simp add: eval_defs example_record_patterns_def)
  have p: "os_path_join ''targetDir'' ''x.mdc'' = ''targetDir/x.mdc''"
    by (simp add: os_path_join_def startswith_sep_def endswith_sep_def)
  show ?thesis
    using emitted_file_layout [OF a, of "''x.mdc''" example_record]
          emitted_file_layout [OF b, of "''x.mdc''" example_record_patterns]
    by (simp add: p filepaths_def)
       (simp add: example_record_def example_record_patterns_def spec_layout_def text_line_def
          blank_line_def)
qed

text \<open>
  C2. Emission is deterministic and idempotent. For a table whose records go to
  pairwise distinct paths, two runs that reach their end, from any two prior states,
  leave byte-identical files: each emitted file holds the rendering of its record, which
  depends on the record alone. Running the script again on the state a completed run
  left behind succeeds and leaves the file system exactly as it was.
\<close>

theorem emission_deterministic_idempotent:
  assumes "distinct (filepaths d table)"
      and "run_script table d wa = (wa', None)"
      and "run_script table d wb = (wb', None)"
  shows "(\<forall>(k, r) \<in> set table.
            files (fsys wa') (os_path_join d k) = rendering r
            \<and> files (fsys wb') (os_path_join d k) = files (fsys wa') (os_path_join d k))
         \<and> snd (run_script table d wa') = None
         \<and> fsys (fst (run_script table d wa')) = fsys wa'"
proof -
  have files: "files (fsys w') (os_path_join d k) = rendering r \<and> rendering r \<noteq> None
               \<and> can_open (fsys w') (os_path_join d k)"
    if run: "run_script table d w = (w', None)" and kr: "(k, r) \<in> set table" for w w' k r
  proof -
    from run have ok: "snd (run_script table d w) = None"
      and w': "w' = fst (run_script table d w)" by simp_all
    from ok have loop: "snd (emit_loop d table (fst (sys (Makedirs d) (os_makedirs d) w))) = None"
      by (simp add: snd_run_script)
    show ?thesis
      using emit_loop_files [OF loop assms(1) kr] emit_loop_all_can_open [OF loop kr]
      by (simp add: w' fsys_run_script [OF ok])
  qed
  have first: "\<forall>(k, r) \<in> set table.
            files (fsys wa') (os_path_join d k) = rendering r
            \<and> files (fsys wb') (os_path_join d k) = files (fsys wa') (os_path_join d k)"
    using files [OF assms(2)] files [OF assms(3)] by auto
  from assms(2) have ok: "snd (run_script table d wa) = None"
    and wa': "wa' = fst (run_script table d wa)" by simp_all
  have "os_makedirs d (fsys wa') = (fsys wa', None)"
    using run_script_dir_exists [OF ok] by (intro os_makedirs_exists) (simp_all add: wa')
  then have m: "snd (os_makedirs d (fsys wa')) = None"
    and s: "fsys (fst (sys (Makedirs d) (os_makedirs d) wa')) = fsys wa'"
    by (simp_all add: sys_eq)
  have again: "snd (emit_loop d table (fst (sys (Makedirs d) (os_makedirs d) wa'))) = None
      \<and> fsys (fst (emit_loop d table (fst (sys (Makedirs d) (os_makedirs d) wa'))))
          = fsys (fst (sys (Makedirs d) (os_makedirs d) wa'))"
    by (rule emit_loop_again) (use files [OF assms(2)] in \<open>simp add: s\<close>)
  then have ok2: "snd (run_script table d wa') = None" using m by (simp add: snd_run_script)
  have "fsys (fst (run_script table d wa')) = fsys wa'"
    using again by (simp add: fsys_run_script [OF ok2] s)
  with first ok2 show ?thesis by simp
qed

theorem emission_deterministic_idempotent_witness:
  "files (fsys (fst (run_script [(''x.mdc'', example_record)] ''targetDir''
       (fresh\<lparr>fsys := fresh_fs\<lparr>files := [''targetDir/x.mdc'' \<mapsto> ''old'']\<rparr>\<rparr>))))
     ''targetDir/x.mdc''
   = files (fsys (fst (run_script [(''x.mdc'', example_record)] ''targetDir'' fresh)))
       ''targetDir/x.mdc''
   \<and> fsys (fst (run_script [(''x.mdc'', example_record)] ''targetDir''
             (fst (run_script [(''x.mdc'', example_record)] ''targetDir'' fresh))))
     = fsys (fst (run_script [(''x.mdc'', example_record)] ''targetDir'' fresh))"
proof -
  have a: "run_script [(''x.mdc'', example_record)] ''targetDir'' fresh
        = (fst (run_script [(''x.mdc'', example_record)] ''targetDir'' fresh), None)"
    by (simp add: eval_defs example_record_def)
  have b: "run_script [(''x.mdc'', example_record)] ''targetDir''
             (fresh\<lparr>fsys := fresh_fs\<lparr>files := [''targetDir/x.mdc'' \<mapsto> ''old'']\<rparr>\<rparr>)
        = (fst (run_script [(''x.mdc'', example_record)] ''targetDir''
             (fresh\<lparr>fsys := fresh_fs\<lparr>files := [''targetDir/x.mdc'' \<mapsto> ''old'']\<rparr>\<rparr>)), None)"
    by (simp add: eval_defs example_record_def)
  have c: "distinct (filepaths ''targetDir'' [(''x.mdc'', example_record)])"
    by (rule distinct_filepaths) (simp_all add: is_filename_def)
  have p: "os_path_join ''targetDir'' ''x.mdc'' = ''targetDir/x.mdc''"
    by (simp add: os_path_join_def startswith_sep_def endswith_sep_def)
  show ?thesis
    using emission_deterministic_idempotent [OF c a b] by (simp add: p)
qed

text \<open>
  C3. For every record of the table, once the script has run to its end, a regular file
  whose name is exactly the record's key exists in the target directory, which is a
  directory by then. The key is a file name: not empty and without a path separator.
\<close>

theorem emitted_file_exists:
  assumes "run_script table d w = (w', None)"
      and "(k, r) \<in> set table"
      and "is_filename k"
  shows "is_file (fsys w') (os_path_join d k) \<and> basename (os_path_join d k) = k
         \<and> inside_dir d (os_path_join d k) \<and> d \<in> dirs (fsys w')"
proof -
  from assms(1) have ok: "snd (run_script table d w) = None"
    and w': "w' = fst (run_script table d w)" by simp_all
  from ok have loop: "snd (emit_loop d table (fst (sys (Makedirs d) (os_makedirs d) w))) = None"
    by (simp add: snd_run_script)
  have "is_file (fsys w') (os_path_join d k)"
    using emit_loop_is_file [OF loop assms(2)] by (simp add: w' fsys_run_script [OF ok])
  moreover have "d \<in> dirs (fsys w')" using run_script_dir_exists [OF ok] by (simp add: w')
  ultimately show ?thesis using join_filename_place [OF assms(3)] by simp
qed

theorem emitted_file_exists_witness:
  "is_file (fsys (fst (run_script [(''x.mdc'', example_record)] ''targetDir'' fresh)))
     ''targetDir/x.mdc''
   \<and> basename ''targetDir/x.mdc'' = ''x.mdc''
   \<and> inside_dir ''targetDir'' ''targetDir/x.mdc''
   \<and> ''targetDir'' \<in> dirs (fsys (fst (run_script [(''x.mdc'', example_record)] ''targetDir'' fresh)))"
proof -
  have a: "run_script [(''x.mdc'', example_record)] ''targetDir'' fresh
        = (fst (run_script [(''x.mdc'', example_record)] ''targetDir'' fresh), None)"
    by (simp add: eval_defs example_record_def)
  have p: "os_path_join ''targetDir'' ''x.mdc'' = ''targetDir/x.mdc''"
    by (simp add: os_path_join_def startswith_sep_def endswith_sep_def)
  have f: "is_filename ''x.mdc''" by (simp add: is_filename_def)
  show ?thesis
    using emitted_file_exists [OF a _ f, of example_record] by (simp add: p)
qed

text \<open>
  C4. The claim that emission returns the count of files written, and that every write
  failure identifies the offending path, does not hold of the script: a completed run
  returns nothing but the exit status 0 and the printed confirmation, whatever the
  number of files, and a write that finds the device full raises an \<^verbatim>\<open>OSError\<close>
  that carries no path.
\<close>

theorem emit_count_and_path_counterexample:
  "snd (cursor_rules_setup [] Map.empty fresh) = None
   \<and> exit_status (snd (cursor_rules_setup [] Map.empty fresh)) = 0
   \<and> length (opened (calls (fst (cursor_rules_setup [] Map.empty fresh)))) = 7
   \<and> stdout (fst (cursor_rules_setup [] Map.empty fresh)) = [success_message ''.cursor/rules'']
   \<and> snd (run_script [(''x.mdc'', example_record)] ''targetDir'' cramped) = Some NoSpaceError
   \<and> exn_filename NoSpaceError = None"
proof -
  have "snd (run_script [(''x.mdc'', example_record)] ''targetDir'' cramped) = Some NoSpaceError"
    by (simp add: eval_defs example_record_def cramped_def)
  then show ?thesis
    using program_runs run_script_opened [OF program_runs]
    by (simp add: cursor_rules_setup_def exit_status_def rules_filepaths fst_run_script)
       (simp add: fresh_def rules_dir_def)
qed

text \<open>
  C4, as amended. A run that reaches its end has opened one file per record, in table
  order, and the process exits with status 0. A run that raises exits with status 1
  and has printed nothing. Either the directory creation raised, and no file was
  opened; or the loop body raised in some record, and the run stopped right there: the
  final state is the state in which that record's body stopped, the files opened are
  those of the records up to and including it, and the records after it play no part. If
  it was the \<^verbatim>\<open>open\<close> of the record that failed, the exception carries the record's
  path; otherwise the exception is the pathless \<^verbatim>\<open>OSError\<close> of a full device or a
  \<^verbatim>\<open>KeyError\<close> of a record without rule type or content.
\<close>

theorem emission_outcome:
  assumes "run_script table d w = (w', x)"
  shows "case x of
           None \<Rightarrow> exit_status x = 0 \<and> opened (calls w') = opened (calls w) @ filepaths d table
         | Some e \<Rightarrow>
             exit_status x = 1 \<and> stdout w' = stdout w
             \<and> (os_makedirs d (fsys w) = (fsys w', Some e) \<and> opened (calls w') = opened (calls w)
                \<or> (\<exists>pre k r post w1.
                      table = pre @ (k, r) # post
                      \<and> emit_loop d pre (fst (sys (Makedirs d) (os_makedirs d) w)) = (w1, None)
                      \<and> write_rule d k r w1 = (w', Some e)
                      \<and> opened (calls w') = opened (calls w) @ filepaths d (pre @ [(k, r)])
                      \<and> (snd (open_w (os_path_join d k) (fsys w1)) = Some e
                           \<and> exn_filename e = Some (os_path_join d k)
                         \<or> snd (open_w (os_path_join d k) (fsys w1)) = None
                           \<and> (e = NoSpaceError \<or> e = KeyError ''rule_type''
                               \<or> e = KeyError ''content''))))"
proof (cases x)
  case None
  with assms have ok: "snd (run_script table d w) = None"
    and w': "w' = fst (run_script table d w)" by simp_all
  show ?thesis using run_script_opened [OF ok] by (simp add: None w' exit_status_def)
next
  case (Some e)
  with assms have fail: "snd (run_script table d w) = Some e"
    and w': "w' = fst (run_script table d w)" by simp_all
  from fail have out: "stdout w' = stdout w" by (simp add: w' run_script_stdout_fail)
  let ?w0 = "fst (sys (Makedirs d) (os_makedirs d) w)"
  have "os_makedirs d (fsys w) = (fsys w', Some e) \<and> opened (calls w') = opened (calls w)
      \<or> (\<exists>pre k r post w1.
            table = pre @ (k, r) # post \<and> emit_loop d pre ?w0 = (w1, None)
            \<and> write_rule d k r w1 = (w', Some e)
            \<and> opened (calls w') = opened (calls w) @ filepaths d (pre @ [(k, r)])
            \<and> (snd (open_w (os_path_join d k) (fsys w1)) = Some e
                 \<and> exn_filename e = Some (os_path_join d k)
               \<or> snd (open_w (os_path_join d k) (fsys w1)) = None
                 \<and> (e = NoSpaceError \<or> e = KeyError ''rule_type'' \<or> e = KeyError ''content'')))"
  proof (cases "snd (os_makedirs d (fsys w)) = None")
    case False
    then have "run_script table d w = sys (Makedirs d) (os_makedirs d) w"
      by (rule run_script_makedirs_fails)
    with fail have "os_makedirs d (fsys w) = (fsys w', Some e)
        \<and> opened (calls w') = opened (calls w)"
      by (simp add: w' sys_eq prod_eq_iff opened_append)
    then show ?thesis by blast
  next
    case True
    from run_script_loop_fails [OF True fail] fail
    have "emit_loop d table ?w0 = (w', Some e)" by (simp add: w' prod_eq_iff)
    from emit_loop_Some [OF this] obtain pre k r post w1
      where t: "table = pre @ (k, r) # post" and p: "emit_loop d pre ?w0 = (w1, None)"
        and f: "write_rule d k r w1 = (w', Some e)"
      by blast
    from p have "opened (calls w1) = opened (calls ?w0) @ filepaths d pre"
      using emit_loop_opened [of d pre ?w0] by simp
    moreover have "opened (calls w') = opened (calls w1) @ [os_path_join d k]"
      using write_rule_opened [of d k r w1] f by simp
    ultimately have o: "opened (calls w') = opened (calls w) @ filepaths d (pre @ [(k, r)])"
      by (simp add: filepaths_snoc sys_eq opened_append)
    from f have "snd (write_rule d k r w1) = Some e" by simp
    from write_rule_exn_cases [OF this] t p f o show ?thesis by blast
  qed
  with out show ?thesis by (simp add: Some exit_status_def)
qed

text \<open>
  Where the second of three files may not be written, the script stops with the
  \<^verbatim>\<open>PermissionError\<close> of that path, after opening the first two files only.
\<close>

theorem emission_outcome_witness:
  "snd (run_script three_records ''targetDir'' second_denied)
     = Some (PermissionError ''targetDir/b.mdc'')
   \<and> exit_status (snd (run_script three_records ''targetDir'' second_denied)) = 1
   \<and> stdout (fst (run_script three_records ''targetDir'' second_denied)) = []
   \<and> opened (calls (fst (run_script three_records ''targetDir'' second_denied)))
       = [''targetDir/a.mdc'', ''targetDir/b.mdc'']
   \<and> files (fsys (fst (run_script three_records ''targetDir'' second_denied)))
       ''targetDir/c.mdc'' = None
   \<and> exit_status (snd (run_script rules rules_dir fresh)) = 0"
proof -
  let ?R = "run_script three_records ''targetDir'' second_denied"
  have e: "snd ?R = Some (PermissionError ''targetDir/b.mdc'')"
    by (simp add: eval_defs three_records_def example_record_def second_denied_def)
  have "?R = (fst ?R, snd ?R)" by simp
  from emission_outcome [OF this]
  have a: "exit_status (snd ?R) = 1 \<and> stdout (fst ?R) = stdout second_denied"
    by (simp add: e)
  have "run_script rules rules_dir fresh
          = (fst (run_script rules rules_dir fresh), snd (run_script rules rules_dir fresh))"
    by simp
  from emission_outcome [OF this]
  have b: "exit_status (snd (run_script rules rules_dir fresh)) = 0"
    by (simp add: program_runs)
  have o: "opened (calls (fst ?R)) = [''targetDir/a.mdc'', ''targetDir/b.mdc'']"
    by (simp add: eval_defs three_records_def example_record_def second_denied_def)
  have f: "files (fsys (fst ?R)) ''targetDir/c.mdc'' = None"
    by (simp add: eval_defs three_records_def example_record_def second_denied_def)
  from e a b o f show ?thesis by (simp add: second_denied_def fresh_def)
qed

text \<open>
  C5. The script first ensures that the target directory exists: the call to
  \<^verbatim>\<open>os.makedirs\<close> is the first call it makes, before any file is opened, and when
  the call fails nothing else is done and no file is changed. When the call succeeds
  the directory and all its ancestors exist afterwards, exactly the missing ones among
  them having been created. The call does not fail when the directory exists already,
  and repeating it changes nothing.
\<close>

theorem target_directory_ensured_first:
  "(\<exists>rest. calls (fst (run_script table d w)) = calls w @ Makedirs d # rest)
   \<and> (snd (os_makedirs d (fsys w)) \<noteq> None \<longrightarrow>
        run_script table d w
          = (w\<lparr>fsys := fst (os_makedirs d (fsys w)), calls := calls w @ [Makedirs d]\<rparr>,
             snd (os_makedirs d (fsys w)))
        \<and> files (fst (os_makedirs d (fsys w))) = files (fsys w))
   \<and> (snd (os_makedirs d (fsys w)) = None \<longrightarrow>
        dir_exists (fst (os_makedirs d (fsys w))) d
        \<and> dirs (fst (os_makedirs d (fsys w))) = dirs (fsys w) \<union> set (ancestors d) \<union> {d}
        \<and> os_makedirs d (fst (os_makedirs d (fsys w))) = (fst (os_makedirs d (fsys w)), None))
   \<and> (dir_exists (fsys w) d \<longrightarrow> os_makedirs d (fsys w) = (fsys w, None))"
proof -
  have a: "\<exists>rest. calls (fst (run_script table d w)) = calls w @ Makedirs d # rest"
    by (rule run_script_calls)
  have b: "run_script table d w
          = (w\<lparr>fsys := fst (os_makedirs d (fsys w)), calls := calls w @ [Makedirs d]\<rparr>,
             snd (os_makedirs d (fsys w)))
        \<and> files (fst (os_makedirs d (fsys w))) = files (fsys w)"
    if "snd (os_makedirs d (fsys w)) \<noteq> None"
    using that by (simp add: run_script_makedirs_fails sys_eq os_makedirs_frame)
  have c: "dir_exists (fst (os_makedirs d (fsys w))) d
        \<and> dirs (fst (os_makedirs d (fsys w))) = dirs (fsys w) \<union> set (ancestors d) \<union> {d}
        \<and> os_makedirs d (fst (os_makedirs d (fsys w))) = (fst (os_makedirs d (fsys w)), None)"
    if ok: "snd (os_makedirs d (fsys w)) = None"
    using os_makedirs_success [OF ok] os_makedirs_dirs_eq [OF ok]
    by (simp add: dir_exists_def os_makedirs_exists)
  have e: "os_makedirs d (fsys w) = (fsys w, None)" if "dir_exists (fsys w) d"
    using that by (simp add: dir_exists_def os_makedirs_exists)
  from a b c e show ?thesis by blast
qed

text \<open>
  On a fresh file system both \<^verbatim>\<open>.cursor\<close> and \<^verbatim>\<open>.cursor/rules\<close> are created and
  a second call is accepted; where \<^verbatim>\<open>.cursor\<close> may not be created, the script stops
  with that error after its first call.
\<close>

theorem target_directory_ensured_first_witness:
  "calls (fst (run_script rules rules_dir fresh)) \<noteq> []
   \<and> hd (calls (fst (run_script rules rules_dir fresh))) = Makedirs ''.cursor/rules''
   \<and> dirs (fst (os_makedirs rules_dir fresh_fs)) = {''.cursor'', ''.cursor/rules''}
   \<and> os_makedirs rules_dir (fst (os_makedirs rules_dir fresh_fs))
       = (fst (os_makedirs rules_dir fresh_fs), None)
   \<and> snd (run_script rules rules_dir locked) = Some (PermissionError ''.cursor'')
   \<and> calls (fst (run_script rules rules_dir locked)) = [Makedirs ''.cursor/rules'']
   \<and> files (fsys (fst (run_script rules rules_dir locked))) = Map.empty"
proof -
  note a = target_directory_ensured_first [of rules rules_dir fresh]
  note b = target_directory_ensured_first [of rules rules_dir locked]
  have ok: "snd (os_makedirs rules_dir (fsys fresh)) = None"
    by (simp add: fresh_def makedirs_fresh)
  have no: "os_makedirs rules_dir (fsys locked)
              = (fresh_fs\<lparr>denied := {''.cursor''}\<rparr>, Some (PermissionError ''.cursor''))"
    by (simp add: locked_def rules_dir_def os_makedirs_def ancestors_def endswith_sep_def
          os_mkdir_def is_file_def is_dir_def parent_def fresh_fs_def fresh_def)
  from a obtain rest
    where "calls (fst (run_script rules rules_dir fresh)) = calls fresh @ Makedirs rules_dir # rest"
    by blast
  then have first: "calls (fst (run_script rules rules_dir fresh)) \<noteq> []
      \<and> hd (calls (fst (run_script rules rules_dir fresh))) = Makedirs ''.cursor/rules''"
    by (simp add: fresh_def rules_dir_def)
  from a ok have "dirs (fst (os_makedirs rules_dir (fsys fresh)))
            = dirs (fsys fresh) \<union> set (ancestors rules_dir) \<union> {rules_dir}
      \<and> os_makedirs rules_dir (fst (os_makedirs rules_dir (fsys fresh)))
            = (fst (os_makedirs rules_dir (fsys fresh)), None)"
    by blast
  then have second: "dirs (fst (os_makedirs rules_dir fresh_fs)) = {''.cursor'', ''.cursor/rules''}
      \<and> os_makedirs rules_dir (fst (os_makedirs rules_dir fresh_fs))
            = (fst (os_makedirs rules_dir fresh_fs), None)"
    by (simp add: fresh_def)
       (auto simp: rules_dir_def ancestors_def endswith_sep_def fresh_fs_def)
  from b no have "run_script rules rules_dir locked
          = (locked\<lparr>fsys := fst (os_makedirs rules_dir (fsys locked)),
                    calls := calls locked @ [Makedirs rules_dir]\<rparr>,
             snd (os_makedirs rules_dir (fsys locked)))"
    by simp
  then have third: "snd (run_script rules rules_dir locked) = Some (PermissionError ''.cursor'')
      \<and> calls (fst (run_script rules rules_dir locked)) = [Makedirs ''.cursor/rules'']
      \<and> files (fsys (fst (run_script rules rules_dir locked))) = Map.empty"
    by (simp add: no) (simp add: locked_def fresh_def fresh_fs_def rules_dir_def)
  from first second third show ?thesis by simp
qed

text \<open>
  C6. The claim that the target directory can be supplied does not hold of the script:
  started with another directory in its arguments and in its environment, it still
  writes \<^verbatim>\<open>.cursor/rules/always.mdc\<close>, and nothing under the directory named.
\<close>

theorem configurable_directory_counterexample:
  "snd (cursor_rules_setup [''cursor_rules_setup.py'', ''out''] [''RULES_DIR'' \<mapsto> ''out''] fresh)
     = None
   \<and> is_file (fsys (fst (cursor_rules_setup [''cursor_rules_setup.py'', ''out'']
                           [''RULES_DIR'' \<mapsto> ''out''] fresh))) ''.cursor/rules/always.mdc''
   \<and> files (fsys (fst (cursor_rules_setup [''cursor_rules_setup.py'', ''out'']
                         [''RULES_DIR'' \<mapsto> ''out''] fresh))) ''out/always.mdc'' = None
   \<and> ''out'' \<notin> dirs (fsys (fst (cursor_rules_setup [''cursor_rules_setup.py'', ''out'']
                                  [''RULES_DIR'' \<mapsto> ''out''] fresh)))"
proof -
  have loop: "snd (emit_loop rules_dir rules
                     (fst (sys (Makedirs rules_dir) (os_makedirs rules_dir) fresh))) = None"
    using program_runs by (simp add: snd_run_script)
  have "(''always.mdc'', \<lparr>rule_type = Some ''Always'', file_patterns = None, description = None,
           content = Some content_always\<rparr>) \<in> set rules"
    by (simp add: rules_def)
  from emit_loop_is_file [OF loop this]
  have a: "is_file (fsys (fst (run_script rules rules_dir fresh))) ''.cursor/rules/always.mdc''"
    by (simp add: fsys_run_script [OF program_runs])
       (simp add: rules_dir_def os_path_join_def startswith_sep_def endswith_sep_def)
  have "''out/always.mdc'' \<notin> set (filepaths rules_dir rules)"
    by (simp add: rules_filepaths)
  then have b: "files (fsys (fst (run_script rules rules_dir fresh))) ''out/always.mdc'' = None"
    by (simp add: run_script_files_frame) (simp add: fresh_def fresh_fs_def)
  have c: "''out'' \<notin> dirs (fsys (fst (run_script rules rules_dir fresh)))"
    by (simp add: run_script_dirs) (simp add: fresh_def makedirs_fresh)
  from a b c program_runs show ?thesis by (simp add: cursor_rules_setup_def)
qed

text \<open>
  C6, as amended. The script writes under the fixed relative directory
  \<^verbatim>\<open>.cursor/rules\<close>: whatever the arguments and the environment of the process, it
  behaves as the module body run with that directory, the files it opens are an
  initial segment of the seven paths directly inside \<^verbatim>\<open>.cursor/rules\<close>, and every
  other file is left as it was.
\<close>

theorem target_directory_fixed:
  "cursor_rules_setup argv environ w = run_script rules ''.cursor/rules'' w
   \<and> (\<exists>n. opened (calls (fst (cursor_rules_setup argv environ w)))
            = opened (calls w) @ take n (filepaths ''.cursor/rules'' rules))
   \<and> list_all (\<lambda>p. parent p = ''.cursor/rules'') (filepaths ''.cursor/rules'' rules)
   \<and> (q \<notin> set (filepaths ''.cursor/rules'' rules) \<longrightarrow>
        files (fsys (fst (cursor_rules_setup argv environ w))) q = files (fsys w) q)"
proof -
  have d: "rules_dir = ''.cursor/rules''" by (simp add: rules_dir_def)
  show ?thesis
    unfolding d [symmetric] cursor_rules_setup_def
    using run_script_opened_prefix [of rules rules_dir w] rules_filepaths_inside
    by (simp add: run_script_files_frame)
qed

theorem target_directory_fixed_witness:
  "cursor_rules_setup [''cursor_rules_setup.py'', ''--rules-dir'', ''out'']
      [''RULES_DIR'' \<mapsto> ''out''] fresh
     = run_script rules ''.cursor/rules'' fresh
   \<and> files (fsys (fst (cursor_rules_setup [''cursor_rules_setup.py'', ''--rules-dir'', ''out'']
                         [''RULES_DIR'' \<mapsto> ''out''] fresh))) ''out/testing.mdc'' = None"
proof -
  have d: "rules_dir = ''.cursor/rules''" by (simp add: rules_dir_def)
  have "''out/testing.mdc'' \<notin> set (filepaths ''.cursor/rules'' rules)"
    unfolding d [symmetric] by (simp add: rules_filepaths)
  with target_directory_fixed [of "[''cursor_rules_setup.py'', ''--rules-dir'', ''out'']"
            "[''RULES_DIR'' \<mapsto> ''out'']" fresh "''out/testing.mdc''"]
  have "cursor_rules_setup [''cursor_rules_setup.py'', ''--rules-dir'', ''out'']
           [''RULES_DIR'' \<mapsto> ''out''] fresh
         = run_script rules ''.cursor/rules'' fresh
     \<and> files (fsys (fst (cursor_rules_setup [''cursor_rules_setup.py'', ''--rules-dir'', ''out'']
                         [''RULES_DIR'' \<mapsto> ''out''] fresh))) ''out/testing.mdc''
         = files (fsys fresh) ''out/testing.mdc''"
    by blast
  then have "cursor_rules_setup [''cursor_rules_setup.py'', ''--rules-dir'', ''out'']
           [''RULES_DIR'' \<mapsto> ''out''] fresh
         = run_script rules ''.cursor/rules'' fresh"
    and "files (fsys (fst (cursor_rules_setup [''cursor_rules_setup.py'', ''--rules-dir'', ''out'']
                         [''RULES_DIR'' \<mapsto> ''out''] fresh))) ''out/testing.mdc''
         = files (fsys fresh) ''out/testing.mdc''"
    by blast+
  moreover have "files (fsys fresh) ''out/testing.mdc'' = None"
    by (simp add: fresh_def fresh_fs_def)
  ultimately show ?thesis by simp
qed




text \<open>
  C8. For an empty table emission is not an error: once the target directory has been
  created the script succeeds, having opened and written no file; the files, the free
  space and the permissions are as before, and the only new directories are the target
  directory and its ancestors.
\<close>

theorem empty_table_noop:
  assumes "snd (os_makedirs d (fsys w)) = None"
  shows "run_script [] d w
           = (w\<lparr>fsys := fst (os_makedirs d (fsys w)), calls := calls w @ [Makedirs d],
                stdout := stdout w @ [success_message d]\<rparr>, None)
         \<and> files (fst (os_makedirs d (fsys w))) = files (fsys w)
         \<and> free (fst (os_makedirs d (fsys w))) = free (fsys w)
         \<and> denied (fst (os_makedirs d (fsys w))) = denied (fsys w)
         \<and> dirs (fst (os_makedirs d (fsys w))) = dirs (fsys w) \<union> set (ancestors d) \<union> {d}"
  using assms os_makedirs_dirs_eq [OF assms]
  by (simp add: run_script_def and_then_def sys_eq pass_def print_def os_makedirs_frame)

theorem empty_table_noop_witness:
  "run_script [] rules_dir fresh
     = (\<lparr>fsys = fresh_fs\<lparr>dirs := {''.cursor'', ''.cursor/rules''}\<rparr>,
         calls = [Makedirs ''.cursor/rules''],
         stdout = [success_message ''.cursor/rules'']\<rparr>, None)"
proof -
  have ok: "snd (os_makedirs rules_dir (fsys fresh)) = None"
    by (simp add: fresh_def makedirs_fresh)
  show ?thesis
    using empty_table_noop [OF ok]
    by (simp add: fresh_def makedirs_fresh) (simp add: rules_dir_def)
qed

text \<open>
  C9. When the script runs to its end it has printed exactly one line, the confirmation,
  which ends with the target directory path; when it stops with an exception it has
  printed nothing.
\<close>

theorem success_confirmation_printed:
  "(snd (run_script table d w) = None \<longrightarrow>
      stdout (fst (run_script table d w)) = stdout w @ [success_message d])
   \<and> (snd (run_script table d w) \<noteq> None \<longrightarrow> stdout (fst (run_script table d w)) = stdout w)
   \<and> success_message d
       = [CHR 0xE2, CHR 0x9C, CHR 0x85] @ '' Successfully created rule files in '' @ d"
  by (simp add: fst_run_script run_script_stdout_fail success_message_def)

theorem success_confirmation_printed_witness:
  "stdout (fst (cursor_rules_setup [] Map.empty fresh))
     = [[CHR 0xE2, CHR 0x9C, CHR 0x85] @ '' Successfully created rule files in .cursor/rules'']
   \<and> stdout (fst (run_script rules rules_dir locked)) = []"
proof -
  have no: "snd (run_script rules rules_dir locked) \<noteq> None"
    by (simp add: snd_run_script locked_def rules_dir_def os_makedirs_def ancestors_def
          endswith_sep_def os_mkdir_def is_file_def is_dir_def parent_def fresh_fs_def fresh_def)
  show ?thesis
    using success_confirmation_printed [of rules rules_dir fresh]
          success_confirmation_printed [of rules rules_dir locked] program_runs no
    by (simp add: cursor_rules_setup_def) (simp add: fresh_def locked_def rules_dir_def)
qed

text \<open>
  C10. The table of the script has seven entries; their keys are pairwise different file
  names (not empty, no path separator), and every record has a rule type and a content
  that ends with a newline. Consequently a run of the script that reaches its end has
  opened exactly seven files, at seven distinct paths directly inside the rules
  directory, and every one of these files ends with a newline.
\<close>


theorem rules_table_invariant:
  "distinct (map fst rules) \<and> length rules = 7
   \<and> list_all (\<lambda>(k, r). is_filename k
        \<and> (\<exists>rt c. rule_type r = Some rt \<and> content r = Some c \<and> ends_with_newline c)) rules
   \<and> (snd (cursor_rules_setup argv environ w) = None \<longrightarrow>
        opened (calls (fst (cursor_rules_setup argv environ w)))
          = opened (calls w) @ filepaths rules_dir rules
        \<and> length (filepaths rules_dir rules) = 7
        \<and> distinct (filepaths rules_dir rules)
        \<and> list_all (\<lambda>p. parent p = rules_dir) (filepaths rules_dir rules)
        \<and> list_all (\<lambda>p. \<exists>bytes. files (fsys (fst (cursor_rules_setup argv environ w))) p
                                  = Some bytes \<and> ends_with_newline bytes)
             (filepaths rules_dir rules))"
proof -
  have static: "distinct (map fst rules) \<and> length rules = 7"
    by (simp add: rules_keys) (simp add: rules_def)
  have run: "opened (calls (fst (run_script rules rules_dir w)))
          = opened (calls w) @ filepaths rules_dir rules
        \<and> length (filepaths rules_dir rules) = 7
        \<and> distinct (filepaths rules_dir rules)
        \<and> list_all (\<lambda>p. parent p = rules_dir) (filepaths rules_dir rules)
        \<and> list_all (\<lambda>p. \<exists>bytes. files (fsys (fst (run_script rules rules_dir w))) p
                                  = Some bytes \<and> ends_with_newline bytes)
             (filepaths rules_dir rules)"
    if ok: "snd (run_script rules rules_dir w) = None"
  proof -
    from ok have loop:
      "snd (emit_loop rules_dir rules
             (fst (sys (Makedirs rules_dir) (os_makedirs rules_dir) w))) = None"
      by (simp add: snd_run_script)
    have "\<exists>bytes. files (fsys (fst (run_script rules rules_dir w))) (os_path_join rules_dir k)
                     = Some bytes \<and> ends_with_newline bytes"
      if kr: "(k, r) \<in> set rules" for k r
    proof -
      from kr rules_entries obtain rt c
        where f: "rule_type r = Some rt" "content r = Some c" and e: "ends_with_newline c"
        by (auto simp: list_all_iff)
      have "files (fsys (fst (run_script rules rules_dir w))) (os_path_join rules_dir k)
              = Some (spec_layout rt (file_patterns r) (description r) c)"
        using emit_loop_files [OF loop rules_filepaths_distinct kr]
        by (simp add: fsys_run_script [OF ok] rendering_def f)
      with spec_layout_ends [OF e] show ?thesis by blast
    qed
    then have "list_all (\<lambda>p. \<exists>bytes. files (fsys (fst (run_script rules rules_dir w))) p
                                  = Some bytes \<and> ends_with_newline bytes)
             (filepaths rules_dir rules)"
      by (auto simp: list_all_iff filepaths_def)
    moreover have "length (filepaths rules_dir rules) = 7" by (simp add: rules_filepaths)
    ultimately show ?thesis
      using run_script_opened [OF ok] rules_filepaths_distinct rules_filepaths_inside by simp
  qed
  from static rules_entries run show ?thesis
    by (simp add: cursor_rules_setup_def)
qed

theorem rules_table_invariant_witness:
  "snd (cursor_rules_setup [] Map.empty fresh) = None
   \<and> opened (calls (fst (cursor_rules_setup [] Map.empty fresh)))
       = [''.cursor/rules/always.mdc'', ''.cursor/rules/testing.mdc'',
          ''.cursor/rules/git-rules.mdc'', ''.cursor/rules/build-planning.mdc'',
          ''.cursor/rules/context-passing.mdc'', ''.cursor/rules/manual.mdc'',
          ''.cursor/rules/agent-requested.mdc'']
   \<and> (\<exists>bytes. files (fsys (fst (cursor_rules_setup [] Map.empty fresh)))
                  ''.cursor/rules/manual.mdc'' = Some bytes \<and> ends_with_newline bytes)"
proof -
  have ok: "snd (cursor_rules_setup [] Map.empty fresh) = None"
    using program_runs by (simp add: cursor_rules_setup_def)
  from rules_table_invariant [of "[]" Map.empty fresh] ok
  have "opened (calls (fst (cursor_rules_setup [] Map.empty fresh)))
          = opened (calls fresh) @ filepaths rules_dir rules"
    and "list_all (\<lambda>p. \<exists>bytes. files (fsys (fst (cursor_rules_setup [] Map.empty fresh))) p
                                  = Some bytes \<and> ends_with_newline bytes)
             (filepaths rules_dir rules)"
    by blast+
  then show ?thesis
    using ok by (simp add: rules_filepaths fresh_def)
qed

end
